theory Spec2Isabelle
  imports Main "HOL-Library.Char_ord" "HOL-Library.List_Lexorder"
begin

section \<open>The statement compiler of gomacro's fast interpreter (statement.go)\<close>

text \<open>
  The development embeds \<^verbatim>\<open>vendor/github.com/cosmos72/gomacro/fast/statement.go\<close>.
  A compiled statement (Go type \<^verbatim>\<open>Stmt = func(*Env) (Stmt, *Env)\<close>) is a closure; every
  closure literal of the file becomes one constructor of the datatype \<open>instr\<close>, carrying the
  variables the closure captures, and the function \<open>exec\<close> gives it the body of the closure.
  A compiler frame (\<^verbatim>\<open>*Comp\<close>) is the record \<open>Comp\<close>; the chain of \<^verbatim>\<open>Outer\<close> pointers is
  the list \<open>outer\<close> of the compile state. Integers that closures capture by address
  (\<^verbatim>\<open>jump.Break\<close>, \<^verbatim>\<open>nbinds\<close>) live in the list \<open>cells\<close>, addressed by index.
  \<^verbatim>\<open>Errorf\<close> panics in Go: every call is the result \<open>Inl\<close> of the model.
  Source positions (\<^verbatim>\<open>c.Pos\<close>, the second argument of \<^verbatim>\<open>Append\<close>) only feed diagnostics
  and are left out.
\<close>

subsection \<open>Syntax trees (package go/ast, as far as statement.go inspects them)\<close>

datatype token =
  ASSIGN | DEFINE | VAR | CONST | TYPE | IMPORT
  | BREAK | CONTINUE | FALLTHROUGH | GOTO | INC | DEC | ADD | SUB

datatype ast_Expr =
  Ident string
  | BasicLit string
  | CallExpr ast_Expr "ast_Expr list" bool
  | OtherExpr nat

datatype ast_Spec = ValueSpec "string list" | OtherSpec

datatype ast_Decl =
  FuncDecl "string option"
  | GenDecl token "ast_Spec list"
  | BadDecl

text \<open>
  \<open>NilStmt\<close> is the nil interface value; \<open>BadStmt\<close> stands for every statement type the
  dispatcher does not list. The body of a \<^verbatim>\<open>for\<close> or \<^verbatim>\<open>if\<close> is a \<^verbatim>\<open>*ast.BlockStmt\<close>, which
  may be nil: \<open>None\<close>. \<open>ForStmt init cond post body\<close>, \<open>IfStmt init cond body else\<close>.
  Statements that collaborators compile carry an opaque payload.
\<close>

datatype ast_Stmt =
  NilStmt
  | AssignStmt "ast_Expr list" token "ast_Expr list"
  | BlockStmt "ast_Stmt list"
  | BranchStmt token "string option"
  | CaseClause "ast_Expr list option"
  | CommClause ast_Stmt
  | DeclStmt ast_Decl
  | DeferStmt ast_Expr
  | EmptyStmt
  | ExprStmt ast_Expr
  | ForStmt ast_Stmt "ast_Expr option" ast_Stmt "ast_Stmt list option"
  | GoStmt ast_Expr
  | IfStmt ast_Stmt ast_Expr "ast_Stmt list option" ast_Stmt
  | IncDecStmt ast_Expr token
  | LabeledStmt string ast_Stmt
  | RangeStmt nat
  | ReturnStmt "ast_Expr list"
  | SelectStmt nat
  | SendStmt nat
  | SwitchStmt nat
  | TypeSwitchStmt nat
  | BadStmt

subsection \<open>Run-time values and compiled instructions\<close>

text \<open>
  A \<^verbatim>\<open>reflect.Value\<close> either holds its own copy of a value (\<open>Plain\<close>) or is settable and
  aliases the storage of a variable (\<open>Settable a\<close>, \<^verbatim>\<open>CanSet()\<close> is true).
  \<^verbatim>\<open>v.Convert(v.Type())\<close> reads the storage and returns a value of its own.
  A closure of the expression compiler reads and may change the variables, and may
  panic (\<open>None\<close>).
\<close>

type_synonym store = "nat \<Rightarrow> int"

datatype Value = Plain int | Settable nat

fun CanSet :: "Value \<Rightarrow> bool" where
  "CanSet (Plain v) = False"
| "CanSet (Settable a) = True"

fun Interface :: "store \<Rightarrow> Value \<Rightarrow> int" where
  "Interface m (Plain v) = v"
| "Interface m (Settable a) = m a"

definition Convert :: "store \<Rightarrow> Value \<Rightarrow> Value" where
  "Convert m v = Plain (Interface m v)"

type_synonym 'a closure = "store \<Rightarrow> ('a \<times> store) option"

datatype instr =
  stmtNop
  | popEnv
  | pushEnv_stmt nat
  | jumpOut0 nat
  | jumpOut1 nat
  | jumpOut2 nat
  | jumpOutN nat nat
  | For_cond "bool closure" nat
  | For_jump nat
  | If_cond "bool closure" nat nat
  | If_goto nat
  | Go_stmt "Value closure" "Value closure list"
  | Defer_stmt "Value closure" "Value closure list" bool
  | stmtReturn
  | returnMultiValues_stmt "Value list closure" "(store \<Rightarrow> Value \<Rightarrow> store) list"
  | Collab_stmt "unit closure"

subsection \<open>Compiler frames\<close>

record Code =
  Code_List :: "instr list"
  WithDefers :: bool

record LoopInfo =
  Continue_slot :: "nat option"
  Break_slot :: "nat option"
  ThisLabels :: "string list"

record Bind =
  Bind_Name :: string
  Bind_Type :: string

record FuncInfo =
  Results :: "Bind list"
  NamedResults :: bool

record Comp =
  Code :: Code
  UpCost :: nat
  Depth :: int
  BindNum :: nat
  IntBindNum :: nat
  Loop :: "LoopInfo option"
  Func :: "FuncInfo option"

text \<open>
  The compile state: the receiver \<^verbatim>\<open>c\<close>, the chain \<^verbatim>\<open>c.Outer, c.Outer.Outer, ...\<close> and the
  integers allocated so far for closures to capture.
\<close>

record cstate =
  cur :: Comp
  outer :: "Comp list"
  cells :: "nat list"

datatype fmt_arg = A_int int | A_str string | A_bool bool | A_node

datatype error =
  Errorf string "fmt_arg list"
  | RuntimePanic string
  | CollabError nat

subsection \<open>Collaborators: the expression, assignment and declaration compilers\<close>

text \<open>
  The methods below belong to other files of the package. What statement.go reads of a
  compiled expression (\<^verbatim>\<open>*Expr\<close>) and of a prepared call (\<^verbatim>\<open>*Call\<close>) are the results of
  the methods it calls on them, kept as record fields of the same names.
  \<open>TryAsPred\<close> is the triple \<^verbatim>\<open>(value, fun, err)\<close>.
\<close>

record Expr =
  Const :: bool
  AsStmt :: instr
  TryAsPred :: "bool \<times> bool closure option \<times> bool"
  AsX1 :: "Value closure"
  AsXV :: "Value list closure"
  Out :: "nat \<Rightarrow> string"

record Call =
  Fun :: Expr
  MakeArgfunsX1 :: "Value closure list"
  Ellipsis :: bool

record Var =
  Var_Bind :: Bind
  Var_Upn :: nat

text \<open>
  What a collaborator adds to the frame it is called on: the instructions it appends
  and the object and integer bindings it declares.
\<close>

type_synonym emitted = "instr list \<times> nat \<times> nat"

record collab =
  Comp_Assign :: "ast_Expr list \<Rightarrow> token \<Rightarrow> ast_Expr list \<Rightarrow> Comp list \<Rightarrow> error + emitted"
  Comp_Decl :: "ast_Decl \<Rightarrow> Comp list \<Rightarrow> error + emitted"
  Comp_Expr :: "ast_Expr \<Rightarrow> Comp list \<Rightarrow> error + Expr"
  Comp_invalidPred :: "ast_Expr \<Rightarrow> Expr \<Rightarrow> error"
  Comp_prepareCall :: "ast_Expr \<Rightarrow> Comp list \<Rightarrow> error + Call"
  Comp_Place :: "ast_Expr \<Rightarrow> Comp list \<Rightarrow> error + nat"
  Comp_untypedOne :: Expr
  Comp_SetPlace :: "nat \<Rightarrow> token \<Rightarrow> Expr \<Rightarrow> Comp list \<Rightarrow> error + emitted"
  Comp_SetVar :: "Var \<Rightarrow> token \<Rightarrow> Expr \<Rightarrow> Comp list \<Rightarrow> error + emitted"
  Comp_ExprsMultipleValues :: "ast_Expr list \<Rightarrow> nat \<Rightarrow> Comp list \<Rightarrow> error + Expr list"
  Comp_varSetValue :: "Var \<Rightarrow> Comp list \<Rightarrow> store \<Rightarrow> Value \<Rightarrow> store"
  Type_AssignableTo :: "string \<Rightarrow> string \<Rightarrow> bool"
  Comp_Range :: "nat \<Rightarrow> string list \<Rightarrow> Comp list \<Rightarrow> error + emitted"
  Comp_Select :: "nat \<Rightarrow> string list \<Rightarrow> Comp list \<Rightarrow> error + emitted"
  Comp_Send :: "nat \<Rightarrow> Comp list \<Rightarrow> error + emitted"
  Comp_Switch :: "nat \<Rightarrow> string list \<Rightarrow> Comp list \<Rightarrow> error + emitted"
  Comp_TypeSwitch :: "nat \<Rightarrow> string list \<Rightarrow> Comp list \<Rightarrow> error + emitted"

definition chain :: "cstate \<Rightarrow> Comp list" where
  "chain s = cur s # outer s"

definition code :: "cstate \<Rightarrow> instr list" where
  "code s = Code_List (Code (cur s))"

text \<open>
  Modelled from the spec: \<^verbatim>\<open>Code.Len\<close>, \<^verbatim>\<open>Comp.append\<close> and \<^verbatim>\<open>Comp.Append\<close> are not in
  statement.go. The instruction stream is "an ordered, growable sequence of Instructions,
  indexed by integer position", and appending adds one instruction at its end.
\<close>

definition Len :: "cstate \<Rightarrow> nat" where
  "Len s = length (Code_List (Code (cur s)))"

definition append_list :: "instr list \<Rightarrow> Comp \<Rightarrow> Comp" where
  "append_list xs c = c\<lparr>Code := (Code c)\<lparr>Code_List := Code_List (Code c) @ xs\<rparr>\<rparr>"

definition append_stmt :: "instr \<Rightarrow> cstate \<Rightarrow> cstate" where
  "append_stmt i s = s\<lparr>cur := append_list [i] (cur s)\<rparr>"

text \<open>\<^verbatim>\<open>c.Code.List = c.Code.List[0:n]\<close>\<close>

definition truncate_code :: "nat \<Rightarrow> cstate \<Rightarrow> cstate" where
  "truncate_code n s = s\<lparr>cur := (cur s)\<lparr>Code := (Code (cur s))\<lparr>Code_List := take n (Code_List (Code (cur s)))\<rparr>\<rparr>\<rparr>"

text \<open>
  Modelled from the spec: the collaborators' effect on the frame. A statement compiler
  "append[s] zero or more Instructions to the shared stream" (4.1), and a frame keeps the
  "accumulated bind count (object bindings) and integer-bind count" of its block (3).
\<close>

definition emit :: "error + emitted \<Rightarrow> cstate \<Rightarrow> error + cstate" where
  "emit r s =
     (case r of
        Inl e \<Rightarrow> Inl e
      | Inr (xs, nb, nib) \<Rightarrow>
          Inr (s\<lparr>cur := (append_list xs (cur s))
                 \<lparr>BindNum := BindNum (cur s) + nb, IntBindNum := IntBindNum (cur s) + nib\<rparr>\<rparr>))"

text \<open>
  Modelled from the spec: \<^verbatim>\<open>NewComp(outer, &outer.Code)\<close> is not in statement.go. The child
  frame writes "into the same underlying stream" (3): it starts from the code of its parent;
  its counts are zero, it has no loop and no function info, and its up-cost is 1
  (\<^verbatim>\<open>pushEnvIfFlag\<close> resets it to 0 and decrements \<^verbatim>\<open>Depth\<close> when no environment is pushed).
\<close>

definition NewComp :: "Comp \<Rightarrow> Comp" where
  "NewComp c = \<lparr>Code = Code c, UpCost = 1, Depth = Depth c + 1, BindNum = 0, IntBindNum = 0,
                 Loop = None, Func = None\<rparr>"

text \<open>A local variable whose address closures capture: \<open>n\<close> fresh cells, zero-initialised.\<close>

definition alloc :: "nat \<Rightarrow> cstate \<Rightarrow> nat \<times> cstate" where
  "alloc n s = (length (cells s), s\<lparr>cells := cells s @ replicate n 0\<rparr>)"

definition set_cell :: "nat \<Rightarrow> nat \<Rightarrow> cstate \<Rightarrow> cstate" where
  "set_cell a v s = s\<lparr>cells := (cells s)[a := v]\<rparr>"

text \<open>
  Modelled from the spec: \<^verbatim>\<open>LoopInfo.HasLabel\<close> is not in statement.go; "the label matches
  one of this Loop Info's labels" (4.5).
\<close>

definition HasLabel :: "LoopInfo \<Rightarrow> string \<Rightarrow> bool" where
  "HasLabel l label = (label \<in> set (ThisLabels l))"

subsection \<open>Scopes: containLocalBinds, pushEnvIfFlag, popEnvIfLocalBinds\<close>

fun spec_binds :: "ast_Spec \<Rightarrow> bool" where
  "spec_binds (ValueSpec names) = list_ex (\<lambda>ident. ident \<noteq> ''_'') names"
| "spec_binds OtherSpec = False"

fun node_binds :: "ast_Stmt \<Rightarrow> bool" where
  "node_binds (AssignStmt lhs tok rhs) = (tok = DEFINE)"
| "node_binds (DeclStmt (FuncDecl name)) =
     (case name of None \<Rightarrow> False | Some n \<Rightarrow> n \<noteq> ''_'')"
| "node_binds (DeclStmt (GenDecl tok specs)) =
     (if tok \<noteq> VAR then False else list_ex spec_binds specs)"
| "node_binds node = False"

fun containLocalBinds_loop :: "ast_Stmt list \<Rightarrow> bool" where
  "containLocalBinds_loop [] = False"
| "containLocalBinds_loop (node # list) =
     (if node_binds node then True else containLocalBinds_loop list)"

definition containLocalBinds :: "ast_Stmt list \<Rightarrow> error + bool" where
  "containLocalBinds list =
     (if list = []
      then Inl (Errorf ''internal error: containLocalBinds() invoked on empty statement list'' [])
      else Inr (containLocalBinds_loop list))"

definition pushEnvIfFlag :: "nat \<Rightarrow> bool \<Rightarrow> cstate \<Rightarrow> cstate \<times> bool" where
  "pushEnvIfFlag nbinds flag s =
     (let s1 = (if flag then append_stmt (pushEnv_stmt nbinds) s else s);
          inner = NewComp (cur s1);
          inner' = (if \<not> flag then inner\<lparr>UpCost := 0, Depth := Depth inner - 1\<rparr> else inner)
      in (s1\<lparr>cur := inner', outer := cur s1 # outer s1\<rparr>, flag))"

definition pushEnvIfLocalBinds :: "nat \<Rightarrow> ast_Stmt list \<Rightarrow> cstate \<Rightarrow> error + cstate \<times> bool" where
  "pushEnvIfLocalBinds nbinds list s =
     (if list = []
      then Inl (Errorf ''internal error: pushEnvIfLocalBinds() invoked on empty statement list'' [])
      else case containLocalBinds list of
             Inl e \<Rightarrow> Inl e
           | Inr locals \<Rightarrow> Inr (pushEnvIfFlag nbinds locals s))"

definition pushEnvIfDefine :: "nat \<Rightarrow> token \<Rightarrow> cstate \<Rightarrow> cstate \<times> bool" where
  "pushEnvIfDefine nbinds tok s = pushEnvIfFlag nbinds (tok = DEFINE) s"

definition popEnvIfFlag :: "nat \<Rightarrow> bool \<Rightarrow> cstate \<Rightarrow> error + cstate" where
  "popEnvIfFlag nbinds flag s =
     (case outer s of
        [] \<Rightarrow> Inl (RuntimePanic ''nil pointer dereference'')
      | c # rest \<Rightarrow>
          (let inner = cur s;
               c1 = c\<lparr>Code := Code inner\<rparr>;
               s1 = set_cell (nbinds + 1) (IntBindNum inner)
                      (set_cell nbinds (BindNum inner) (s\<lparr>cur := c1, outer := rest\<rparr>))
           in if flag \<noteq> (BindNum inner \<noteq> 0 \<or> IntBindNum inner \<noteq> 0)
              then Inl (Errorf ''popEnvIfFlag internal error: flag is %t, but block actually defined %d Binds and %d IntBinds'' 
                         [A_bool flag, A_int (int (BindNum inner)), A_int (int (IntBindNum inner)), A_node])
              else Inr (if flag then append_stmt popEnv s1 else s1)))"

definition popEnvIfLocalBinds :: "bool \<Rightarrow> nat \<Rightarrow> ast_Stmt list \<Rightarrow> cstate \<Rightarrow> error + cstate" where
  "popEnvIfLocalBinds locals nbinds list s =
     (if list = []
      then Inl (Errorf ''internal error: popEnvIfLocalBinds() invoked on empty statement list'' [])
      else case outer s of
        [] \<Rightarrow> Inl (RuntimePanic ''nil pointer dereference'')
      | c # rest \<Rightarrow>
          (let inner = cur s;
               c1 = c\<lparr>Code := Code inner\<rparr>;
               s1 = set_cell (nbinds + 1) (IntBindNum inner)
                      (set_cell nbinds (BindNum inner) (s\<lparr>cur := c1, outer := rest\<rparr>))
           in if locals \<noteq> (BindNum inner \<noteq> 0 \<or> IntBindNum inner \<noteq> 0)
              then Inl (Errorf ''internal error: containLocalBinds() returned %t, but block actually defined %d Binds and %d IntBinds''
                         [A_bool locals, A_int (int (BindNum inner)), A_int (int (IntBindNum inner)), A_node, A_node])
              else Inr (if locals then append_stmt popEnv s1 else s1)))"

subsection \<open>Branches: break and continue\<close>

definition jumpOut :: "nat \<Rightarrow> nat \<Rightarrow> cstate \<Rightarrow> cstate" where
  "jumpOut upn ip s =
     append_stmt
       (if upn = 0 then jumpOut0 ip
        else if upn = 1 then jumpOut1 ip
        else if upn = 2 then jumpOut2 ip
        else jumpOutN upn ip) s"

text \<open>
  The loop \<^verbatim>\<open>for o := c; o != nil && o.Func == nil; o = o.Outer\<close> of \<^verbatim>\<open>Break\<close>, with the
  count \<^verbatim>\<open>upn\<close>; the result is the up-cost and the target slot, or \<open>None\<close> when the loop ends.
\<close>

fun Break_loop :: "string \<Rightarrow> Comp list \<Rightarrow> nat \<Rightarrow> (nat \<times> nat) option" where
  "Break_loop label [] upn = None"
| "Break_loop label (c # os) upn =
     (case Func c of
        Some f \<Rightarrow> None
      | None \<Rightarrow>
         (case Loop c of
            None \<Rightarrow> Break_loop label os (upn + UpCost c)
          | Some l \<Rightarrow>
             (case Break_slot l of
                None \<Rightarrow> Break_loop label os (upn + UpCost c)
              | Some ip \<Rightarrow>
                  if length label = 0 \<or> HasLabel l label then Some (upn, ip)
                  else Break_loop label os (upn + UpCost c))))"

definition Break :: "string option \<Rightarrow> cstate \<Rightarrow> error + cstate" where
  "Break node_Label s =
     (let label = (case node_Label of None \<Rightarrow> [] | Some name \<Rightarrow> name)
      in case Break_loop label (chain s) 0 of
           Some (upn, ip) \<Rightarrow> Inr (jumpOut upn ip s)
         | None \<Rightarrow>
             if length label \<noteq> 0
             then Inl (Errorf ''break label not defined: %v'' [A_str label])
             else Inl (Errorf ''break outside for/switch'' []))"

fun Continue_loop :: "string \<Rightarrow> Comp list \<Rightarrow> nat \<Rightarrow> (nat \<times> nat) option" where
  "Continue_loop label [] upn = None"
| "Continue_loop label (c # os) upn =
     (case Func c of
        Some f \<Rightarrow> None
      | None \<Rightarrow>
         (case Loop c of
            None \<Rightarrow> Continue_loop label os (upn + UpCost c)
          | Some l \<Rightarrow>
             (case Continue_slot l of
                None \<Rightarrow> Continue_loop label os (upn + UpCost c)
              | Some ip \<Rightarrow>
                  if length label = 0 \<or> HasLabel l label then Some (upn, ip)
                  else Continue_loop label os (upn + UpCost c))))"

definition Continue :: "string option \<Rightarrow> cstate \<Rightarrow> error + cstate" where
  "Continue node_Label s =
     (let label = (case node_Label of None \<Rightarrow> [] | Some name \<Rightarrow> name)
      in case Continue_loop label (chain s) 0 of
           Some (upn, ip) \<Rightarrow> Inr (jumpOut upn ip s)
         | None \<Rightarrow>
             if length label \<noteq> 0
             then Inl (Errorf ''continue label not defined: %v'' [A_str label])
             else Inl (Errorf ''continue outside for'' []))"

definition misplacedFallthrough :: "error" where
  "misplacedFallthrough = Errorf ''misplaced fallthrough: not inside switch'' []"

definition misplacedCase :: "bool \<Rightarrow> error" where
  "misplacedCase isdefault =
     Errorf ''misplaced %s: not inside switch or select: %v <%v>''
       [A_str (if isdefault then ''default'' else ''case''), A_node, A_node]"

definition Branch :: "token \<Rightarrow> string option \<Rightarrow> cstate \<Rightarrow> error + cstate" where
  "Branch tok node_Label s =
     (if tok = BREAK then Break node_Label s
      else if tok = CONTINUE then Continue node_Label s
      else if tok = FALLTHROUGH then Inl misplacedFallthrough
      else Inl (Errorf ''unimplemented branch statement: %v <%v>'' [A_node, A_node]))"

subsection \<open>Defer, go, increment, return\<close>

definition Defer :: "collab \<Rightarrow> ast_Expr \<Rightarrow> cstate \<Rightarrow> error + cstate" where
  "Defer co node_Call s =
     (case Comp_prepareCall co node_Call (chain s) of
        Inl e \<Rightarrow> Inl e
      | Inr call \<Rightarrow>
          (let fn = AsX1 (Fun call);
               argfuns = MakeArgfunsX1 call;
               ellipsis = Ellipsis call;
               s1 = append_stmt (Defer_stmt fn argfuns ellipsis) s
           in Inr (s1\<lparr>cur := (cur s1)\<lparr>Code := (Code (cur s1))\<lparr>WithDefers := True\<rparr>\<rparr>\<rparr>)))"

definition Go :: "collab \<Rightarrow> ast_Expr \<Rightarrow> cstate \<Rightarrow> error + cstate" where
  "Go co node_Call s =
     (let c2 = NewComp (cur s)
      in case Comp_prepareCall co node_Call (c2 # chain s) of
           Inl e \<Rightarrow> Inl e
         | Inr call \<Rightarrow>
             (let exprfun = AsX1 (Fun call);
                  argfunsX1 = MakeArgfunsX1 call;
                  c2' = append_list [Go_stmt exprfun argfunsX1] c2
              in Inr (s\<lparr>cur := (cur s)\<lparr>Code := Code c2'\<rparr>\<rparr>)))"

definition IncDec :: "collab \<Rightarrow> ast_Expr \<Rightarrow> token \<Rightarrow> cstate \<Rightarrow> error + cstate" where
  "IncDec co node_X node_Tok s =
     (case Comp_Place co node_X (chain s) of
        Inl e \<Rightarrow> Inl e
      | Inr place \<Rightarrow>
          (let op = (if node_Tok = DEC then SUB else ADD);
               one = Comp_untypedOne co
           in emit (Comp_SetPlace co place op one (chain s)) s))"

text \<open>
  Modelled from the spec: \<^verbatim>\<open>Comp.Exprs\<close> and \<^verbatim>\<open>Bind.AsVar\<close> are not in statement.go.
  A return "evaluate[s] each expression" and "assign[s] into the corresponding Result
  Binding (by position) at the enclosing function's up-cost depth" (4.6).
\<close>

fun Exprs :: "collab \<Rightarrow> Comp list \<Rightarrow> ast_Expr list \<Rightarrow> error + Expr list" where
  "Exprs co ch [] = Inr []"
| "Exprs co ch (node # nodes) =
     (case Comp_Expr co node ch of
        Inl e \<Rightarrow> Inl e
      | Inr x \<Rightarrow> (case Exprs co ch nodes of Inl e \<Rightarrow> Inl e | Inr xs \<Rightarrow> Inr (x # xs)))"

definition AsVar :: "Bind \<Rightarrow> nat \<Rightarrow> Var" where
  "AsVar b upn = \<lparr>Var_Bind = b, Var_Upn = upn\<rparr>"

text \<open>
  The search of \<^verbatim>\<open>Return\<close> for the enclosing function:
  \<^verbatim>\<open>for cf = c; cf != nil; cf = cf.Outer\<close>.
\<close>

fun Return_loop :: "Comp list \<Rightarrow> nat \<Rightarrow> (FuncInfo \<times> nat) option" where
  "Return_loop [] upn = None"
| "Return_loop (cf # os) upn =
     (case Func cf of
        Some cinfo \<Rightarrow> Some (cinfo, upn)
      | None \<Rightarrow> Return_loop os (upn + UpCost cf))"

text \<open>\<^verbatim>\<open>for i := 0; i < n; i++ { c.SetVar(resultBinds[i].AsVar(upn, PlaceSettable), token.ASSIGN, exprs[i]) }\<close>\<close>

fun Return_assign :: "collab \<Rightarrow> Bind list \<Rightarrow> Expr list \<Rightarrow> nat \<Rightarrow> nat list \<Rightarrow> cstate \<Rightarrow> error + cstate" where
  "Return_assign co resultBinds exprs upn [] s = Inr s"
| "Return_assign co resultBinds exprs upn (i # rest) s =
     (if length resultBinds \<le> i \<or> length exprs \<le> i
      then Inl (RuntimePanic ''index out of range'')
      else case emit (Comp_SetVar co (AsVar (resultBinds ! i) upn) ASSIGN (exprs ! i) (chain s)) s of
             Inl e \<Rightarrow> Inl e
           | Inr s1 \<Rightarrow> Return_assign co resultBinds exprs upn rest s1)"

text \<open>
  The loop of \<^verbatim>\<open>returnMultiValues\<close> over \<^verbatim>\<open>i < n\<close>: the type check of the i-th value and
  the i-th assignment closure.
\<close>

fun returnMultiValues_loop ::
  "collab \<Rightarrow> Comp list \<Rightarrow> Expr \<Rightarrow> Bind list \<Rightarrow> nat \<Rightarrow> nat list
     \<Rightarrow> error + (store \<Rightarrow> Value \<Rightarrow> store) list" where
  "returnMultiValues_loop co ch e resultBinds upn [] = Inr []"
| "returnMultiValues_loop co ch e resultBinds upn (i # rest) =
     (if length resultBinds \<le> i then Inl (RuntimePanic ''index out of range'')
      else
       (let texpected = Bind_Type (resultBinds ! i);
            tactual = Out e i
        in if \<not> Type_AssignableTo co tactual texpected
           then Inl (Errorf ''incompatible types in assignment: %v = %v'' [A_str texpected, A_str tactual])
           else case returnMultiValues_loop co ch e resultBinds upn rest of
                  Inl err \<Rightarrow> Inl err
                | Inr assigns \<Rightarrow>
                    Inr (Comp_varSetValue co (AsVar (resultBinds ! i) upn) ch # assigns)))"

definition returnMultiValues ::
  "collab \<Rightarrow> Bind list \<Rightarrow> nat \<Rightarrow> ast_Expr list \<Rightarrow> cstate \<Rightarrow> error + cstate" where
  "returnMultiValues co resultBinds upn exprs s =
     (let n = length resultBinds
      in case Comp_ExprsMultipleValues co exprs n (chain s) of
           Inl err \<Rightarrow> Inl err
         | Inr [] \<Rightarrow> Inl (RuntimePanic ''index out of range'')
         | Inr (e # es) \<Rightarrow>
             (let fn = AsXV e
              in case returnMultiValues_loop co (chain s) e resultBinds upn [0..<n] of
                   Inl err \<Rightarrow> Inl err
                 | Inr assigns \<Rightarrow> Inr (append_stmt (returnMultiValues_stmt fn assigns) s)))"

definition arity_error :: "nat \<Rightarrow> nat \<Rightarrow> error" where
  "arity_error n m =
     Errorf ''return: expecting %d expressions, found %d: %v'' [A_int (int n), A_int (int m), A_node]"

definition Return_exprs :: "collab \<Rightarrow> Bind list \<Rightarrow> nat \<Rightarrow> ast_Expr list \<Rightarrow> nat \<Rightarrow> cstate \<Rightarrow> error + cstate" where
  "Return_exprs co resultBinds upn resultExprs n s =
     (case Exprs co (chain s) resultExprs of
        Inl e \<Rightarrow> Inl e
      | Inr exprs \<Rightarrow>
          (case Return_assign co resultBinds exprs upn [0..<n] s of
             Inl e \<Rightarrow> Inl e
           | Inr s1 \<Rightarrow> Inr (append_stmt stmtReturn s1)))"

definition Return :: "collab \<Rightarrow> ast_Expr list \<Rightarrow> cstate \<Rightarrow> error + cstate" where
  "Return co node_Results s =
     (case Return_loop (chain s) 0 of
        None \<Rightarrow> Inl (Errorf ''return outside function'' [])
      | Some (cinfo, upn) \<Rightarrow>
          (let resultBinds = Results cinfo;
               resultExprs = node_Results;
               n = length resultBinds
           in if length resultExprs = n then Return_exprs co resultBinds upn resultExprs n s
              else if length resultExprs = 1
                then (if n = 0 then Inl (arity_error n (length resultExprs))
                      else returnMultiValues co resultBinds upn resultExprs s)
              else if length resultExprs = 0
                then (if \<not> NamedResults cinfo then Inl (arity_error n (length resultExprs))
                      else Return_exprs co resultBinds upn resultExprs 0 s)
              else Inl (arity_error n (length resultExprs))))"

subsection \<open>The dispatcher, blocks, lists, for and if\<close>

text \<open>
  \<^verbatim>\<open>Stmt\<close>, \<^verbatim>\<open>Block\<close>, \<^verbatim>\<open>List\<close>, \<^verbatim>\<open>For\<close> and \<^verbatim>\<open>If\<close> call each other. The bodies of the
  last four are written first, with the dispatcher \<^verbatim>\<open>c.Stmt\<close> they call as the parameter
  \<open>stmt\<close>; the dispatcher \<open>Stmt_loop\<close> then passes itself. \<open>Stmt_loop co labels s node\<close> is
  the body of the \<^verbatim>\<open>for\<close> loop of \<^verbatim>\<open>Comp.Stmt\<close> with the labels collected so far, and
  \<open>Stmts_body\<close> is the loop \<^verbatim>\<open>for _, node := range list { c2.Stmt(node) }\<close> of \<^verbatim>\<open>List\<close>.

  In \<open>For_body\<close> and \<open>If_body\<close> the local \<^verbatim>\<open>jump\<close> is allocated in \<open>cells\<close> for the
  closures that capture it: \<^verbatim>\<open>jump.Cond, jump.Post, jump.Break\<close> are the cells
  \<open>jump, jump + 1, jump + 2\<close> of \<open>For_body\<close>, and \<^verbatim>\<open>jump.Then, jump.Else, jump.End\<close> those of
  \<open>If_body\<close>. Only closures hold the addresses of \<^verbatim>\<open>jump.Cond\<close>, \<^verbatim>\<open>jump.Then\<close> and
  \<^verbatim>\<open>jump.Else\<close>, and closures only read them: where the compiler reads them back, the
  model uses the value it wrote (\<open>jump_Cond\<close>, \<open>jump_Then\<close>, \<open>jump_Else\<close>).
\<close>

fun Stmts_body :: "(cstate \<Rightarrow> ast_Stmt \<Rightarrow> error + cstate) \<Rightarrow> cstate \<Rightarrow> ast_Stmt list \<Rightarrow> error + cstate" where
  "Stmts_body stmt s [] = Inr s"
| "Stmts_body stmt s (node # list) =
     (case stmt s node of
        Inl e \<Rightarrow> Inl e
      | Inr s1 \<Rightarrow> Stmts_body stmt s1 list)"

definition List_body :: "(cstate \<Rightarrow> ast_Stmt \<Rightarrow> error + cstate) \<Rightarrow> cstate \<Rightarrow> ast_Stmt list \<Rightarrow> error + cstate" where
  "List_body stmt s list =
     (if length list = 0 then Inl (Errorf ''List invoked on empty statement list'' [])
      else case alloc 2 s of (nbinds, s0) \<Rightarrow>
        (case pushEnvIfLocalBinds nbinds list s0 of
           Inl e \<Rightarrow> Inl e
         | Inr (c2, locals) \<Rightarrow>
            (case Stmts_body stmt c2 list of
               Inl e \<Rightarrow> Inl e
             | Inr c3 \<Rightarrow> popEnvIfLocalBinds locals nbinds list c3)))"

definition Block_body :: "(cstate \<Rightarrow> ast_Stmt \<Rightarrow> error + cstate) \<Rightarrow> cstate \<Rightarrow> ast_Stmt list option \<Rightarrow> error + cstate" where
  "Block_body stmt s block =
     (case block of
        None \<Rightarrow> Inr s
      | Some list \<Rightarrow> if length list = 0 then Inr s else List_body stmt s list)"

text \<open>The condition of a \<^verbatim>\<open>for\<close>: "for { }" without a condition means "for true { }".\<close>

definition For_pred :: "collab \<Rightarrow> ast_Expr option \<Rightarrow> cstate
     \<Rightarrow> error + bool \<times> bool closure option \<times> bool" where
  "For_pred co cond c =
     (case cond of
        None \<Rightarrow> Inr (True, None, False)
      | Some node_Cond \<Rightarrow>
         (case Comp_Expr co node_Cond (chain c) of
            Inl e \<Rightarrow> Inl e
          | Inr pred \<Rightarrow>
             (case TryAsPred pred of (flag, fn, err) \<Rightarrow>
                if err then Inl (Comp_invalidPred co node_Cond pred)
                else Inr (flag, fn, err))))"

text \<open>
  From \<^verbatim>\<open>var jump struct{ Cond, Post, Break int }\<close> to the test of the condition: the
  result is the address of \<^verbatim>\<open>jump\<close>, the value of \<^verbatim>\<open>jump.Cond\<close> and the new state.
\<close>

definition For_loop :: "string list \<Rightarrow> bool closure option \<Rightarrow> cstate \<Rightarrow> nat \<times> nat \<times> cstate" where
  "For_loop labels fn c2 =
     (case alloc 3 c2 of (jump, c3) \<Rightarrow>
      (let c4 = c3\<lparr>cur := (cur c3)\<lparr>Loop := Some \<lparr>Continue_slot = Some (jump + 1),
                                                    Break_slot = Some (jump + 2),
                                                    ThisLabels = sort labels\<rparr>\<rparr>\<rparr>;
           jump_Cond = Len c4;
           c5 = set_cell jump jump_Cond c4;
           c6 = (case fn of None \<Rightarrow> c5 | Some f \<Rightarrow> append_stmt (For_cond f (jump + 2)) c5)
       in (jump, jump_Cond, c6)))"

text \<open>The post statement.\<close>

definition For_post :: "(cstate \<Rightarrow> ast_Stmt \<Rightarrow> error + cstate) \<Rightarrow> ast_Stmt \<Rightarrow> nat \<Rightarrow> nat \<Rightarrow> cstate
     \<Rightarrow> error + cstate" where
  "For_post stmt post jump jump_Cond c7 =
     (if post = NilStmt then Inr (set_cell (jump + 1) jump_Cond c7)
      else (case containLocalBinds [post] of
              Inl e \<Rightarrow> Inl e
            | Inr b \<Rightarrow>
               if b
               then Inl (Errorf ''invalid for: cannot declare new variables in post statement: %v'' [A_node])
               else stmt (set_cell (jump + 1) (Len c7) c7) post))"

text \<open>
  The jump back to the condition, the drop of the code of "for false { }", the break
  target, and the end of the scope of the init statement.
\<close>

definition For_jump_back :: "bool \<Rightarrow> bool closure option \<Rightarrow> nat \<Rightarrow> nat \<Rightarrow> cstate \<Rightarrow> cstate" where
  "For_jump_back flag fn jump jump_Cond c8 =
     (let c9 = append_stmt (For_jump jump) c8;
          c10 = (case fn of
                   None \<Rightarrow> if \<not> flag then truncate_code jump_Cond c9 else c9
                 | Some f \<Rightarrow> c9)
      in set_cell (jump + 2) (Len c10) c10)"

definition For_body :: "collab \<Rightarrow> (cstate \<Rightarrow> ast_Stmt \<Rightarrow> error + cstate) \<Rightarrow> cstate \<Rightarrow> ast_Stmt
     \<Rightarrow> ast_Expr option \<Rightarrow> ast_Stmt \<Rightarrow> ast_Stmt list option \<Rightarrow> string list \<Rightarrow> error + cstate" where
  "For_body co stmt s init cond post body labels =
     (case alloc 2 s of (initBinds, s0) \<Rightarrow>
     (case pushEnvIfLocalBinds initBinds [init] s0 of
        Inl e \<Rightarrow> Inl e
      | Inr (c1, initLocals) \<Rightarrow>
     (case (if init \<noteq> NilStmt then stmt c1 init else Inr c1) of
        Inl e \<Rightarrow> Inl e
      | Inr c2 \<Rightarrow>
     (case For_pred co cond c2 of
        Inl e \<Rightarrow> Inl e
      | Inr (flag, fn, err) \<Rightarrow>
     (case For_loop labels fn c2 of (jump, jump_Cond, c6) \<Rightarrow>
     (case Block_body stmt c6 body of
        Inl e \<Rightarrow> Inl e
      | Inr c7 \<Rightarrow>
     (case For_post stmt post jump jump_Cond c7 of
        Inl e \<Rightarrow> Inl e
      | Inr c8 \<Rightarrow>
         popEnvIfLocalBinds initLocals initBinds [init]
           (For_jump_back flag fn jump jump_Cond c8))))))))"

text \<open>The condition of an \<^verbatim>\<open>if\<close>.\<close>

definition If_pred :: "collab \<Rightarrow> ast_Expr \<Rightarrow> cstate \<Rightarrow> error + bool \<times> bool closure option \<times> bool" where
  "If_pred co cond c =
     (case Comp_Expr co cond (chain c) of
        Inl e \<Rightarrow> Inl e
      | Inr pred \<Rightarrow>
         (case TryAsPred pred of (flag, fn, err) \<Rightarrow>
            if err then Inl (Comp_invalidPred co cond pred)
            else Inr (flag, fn, err)))"

text \<open>The test of the condition and \<^verbatim>\<open>jump.Then\<close>: the result is its value and the new state.\<close>

definition If_then :: "bool closure option \<Rightarrow> nat \<Rightarrow> cstate \<Rightarrow> nat \<times> cstate" where
  "If_then fn jump c2 =
     (let c3 = (case fn of None \<Rightarrow> c2 | Some f \<Rightarrow> append_stmt (If_cond f jump (jump + 1)) c2);
          jump_Then = Len c3
      in (jump_Then, set_cell jump jump_Then c3))"

text \<open>
  After the 'then' branch: its code is dropped when it never runs, the goto between the
  branches, and \<^verbatim>\<open>jump.Else\<close>.
\<close>

definition If_between :: "bool \<Rightarrow> bool closure option \<Rightarrow> ast_Stmt \<Rightarrow> nat \<Rightarrow> nat \<Rightarrow> cstate \<Rightarrow> nat \<times> cstate" where
  "If_between flag fn els jump jump_Then c5 =
     (let c6 = (case fn of
                  None \<Rightarrow> if \<not> flag then truncate_code jump_Then c5 else c5
                | Some f \<Rightarrow> c5);
          c7 = (case fn of
                  None \<Rightarrow> c6
                | Some f \<Rightarrow> if els \<noteq> NilStmt then append_stmt (If_goto (jump + 2)) c6 else c6);
          jump_Else = Len c7
      in (jump_Else, set_cell (jump + 1) jump_Else c7))"

text \<open>The 'else' branch; its code is dropped when it never runs.\<close>

definition If_else :: "(cstate \<Rightarrow> ast_Stmt \<Rightarrow> error + cstate) \<Rightarrow> bool \<Rightarrow> bool closure option \<Rightarrow> ast_Stmt
     \<Rightarrow> nat \<Rightarrow> cstate \<Rightarrow> error + cstate" where
  "If_else stmt flag fn els jump_Else c8 =
     (if els \<noteq> NilStmt
      then (case (case els of
                    BlockStmt list \<Rightarrow> stmt c8 els
                  | IfStmt i c b e \<Rightarrow> stmt c8 els
                  | _ \<Rightarrow> Block_body stmt c8 (Some [els])) of
              Inl e \<Rightarrow> Inl e
            | Inr c9 \<Rightarrow>
               Inr (case fn of
                      None \<Rightarrow> if flag then truncate_code jump_Else c9 else c9
                    | Some f \<Rightarrow> c9))
      else Inr c8)"

definition If_body :: "collab \<Rightarrow> (cstate \<Rightarrow> ast_Stmt \<Rightarrow> error + cstate) \<Rightarrow> cstate \<Rightarrow> ast_Stmt
     \<Rightarrow> ast_Expr \<Rightarrow> ast_Stmt list option \<Rightarrow> ast_Stmt \<Rightarrow> error + cstate" where
  "If_body co stmt s init cond body els =
     (case alloc 3 s of (jump, s0) \<Rightarrow>
     (case alloc 2 s0 of (initBinds, s1) \<Rightarrow>
     (case pushEnvIfLocalBinds initBinds [init] s1 of
        Inl e \<Rightarrow> Inl e
      | Inr (c1, initLocals) \<Rightarrow>
     (case (if init \<noteq> NilStmt then stmt c1 init else Inr c1) of
        Inl e \<Rightarrow> Inl e
      | Inr c2 \<Rightarrow>
     (case If_pred co cond c2 of
        Inl e \<Rightarrow> Inl e
      | Inr (flag, fn, err) \<Rightarrow>
     (case If_then fn jump c2 of (jump_Then, c4) \<Rightarrow>
     (case Block_body stmt c4 body of
        Inl e \<Rightarrow> Inl e
      | Inr c5 \<Rightarrow>
     (case If_between flag fn els jump jump_Then c5 of (jump_Else, c8) \<Rightarrow>
     (case If_else stmt flag fn els jump_Else c8 of
        Inl e \<Rightarrow> Inl e
      | Inr c10 \<Rightarrow>
         popEnvIfLocalBinds initLocals initBinds [init]
           (set_cell (jump + 2) (Len c10) c10))))))))))"

text \<open>
  The bodies call \<open>stmt\<close> on the statements they contain only: the congruence rules
  from which the termination of the dispatcher follows.
\<close>

lemma Stmts_body_cong [fundef_cong]:
  "s = s' \<Longrightarrow> list = list' \<Longrightarrow> (\<And>c n. n \<in> set list' \<Longrightarrow> stmt c n = stmt' c n)
   \<Longrightarrow> Stmts_body stmt s list = Stmts_body stmt' s' list'"
proof (induction list' arbitrary: s s' list)
  case Nil
  then show ?case by simp
next
  case (Cons a list')
  then show ?case by (auto split: sum.splits)
qed

lemma List_body_cong [fundef_cong]:
  "s = s' \<Longrightarrow> list = list' \<Longrightarrow> (\<And>c n. n \<in> set list' \<Longrightarrow> stmt c n = stmt' c n)
   \<Longrightarrow> List_body stmt s list = List_body stmt' s' list'"
  unfolding List_body_def
  by (simp cong: Stmts_body_cong split: prod.splits sum.splits)

lemma Block_body_cong [fundef_cong]:
  "s = s' \<Longrightarrow> block = block' \<Longrightarrow> (\<And>c n list. block' = Some list \<Longrightarrow> n \<in> set list \<Longrightarrow> stmt c n = stmt' c n)
   \<Longrightarrow> Block_body stmt s block = Block_body stmt' s' block'"
  unfolding Block_body_def
  by (auto split: option.splits intro: List_body_cong)


lemma For_post_cong [fundef_cong]:
  assumes "post = post'" "jump = jump'" "jump_Cond = jump_Cond'" "c7 = c7'"
    and h: "\<And>c. stmt c post' = stmt' c post'"
  shows "For_post stmt post jump jump_Cond c7 = For_post stmt' post' jump' jump_Cond' c7'"
  unfolding For_post_def assms(1-4) by (simp only: h)

lemma For_body_cong [fundef_cong]:
  assumes "s = s'" "init = init'" "cond = cond'" "post = post'" "body = body'" "labels = labels'"
    and h: "\<And>c n. n = init' \<or> n = post' \<or> (\<exists>l. body' = Some l \<and> n \<in> set l) \<Longrightarrow> stmt c n = stmt' c n"
  shows "For_body co stmt s init cond post body labels
       = For_body co stmt' s' init' cond' post' body' labels'"
proof -
  have a: "\<And>c. stmt c init' = stmt' c init'" using h by blast
  have b: "\<And>j k c. For_post stmt post' j k c = For_post stmt' post' j k c"
    by (rule For_post_cong) (use h in auto)
  have c: "\<And>c. Block_body stmt c body' = Block_body stmt' c body'"
    by (rule Block_body_cong) (use h in auto)
  show ?thesis
    unfolding For_body_def assms(1-6) by (simp only: a b c)
qed

lemma If_else_cong [fundef_cong]:
  assumes "flag = flag'" "fn = fn'" "els = els'" "jump_Else = jump_Else'" "c8 = c8'"
    and h: "\<And>c. stmt c els' = stmt' c els'"
  shows "If_else stmt flag fn els jump_Else c8 = If_else stmt' flag' fn' els' jump_Else' c8'"
proof -
  have d: "\<And>c. Block_body stmt c (Some [els']) = Block_body stmt' c (Some [els'])"
    by (rule Block_body_cong) (use h in auto)
  show ?thesis
    unfolding If_else_def assms(1-5) by (simp only: h d)
qed

lemma If_body_cong [fundef_cong]:
  assumes "s = s'" "init = init'" "cond = cond'" "body = body'" "els = els'"
    and h: "\<And>c n. n = init' \<or> n = els' \<or> (\<exists>l. body' = Some l \<and> n \<in> set l) \<Longrightarrow> stmt c n = stmt' c n"
  shows "If_body co stmt s init cond body els = If_body co stmt' s' init' cond' body' els'"
proof -
  have a: "\<And>c. stmt c init' = stmt' c init'" using h by blast
  have b: "\<And>f g j c. If_else stmt f g els' j c = If_else stmt' f g els' j c"
    by (rule If_else_cong) (use h in auto)
  have c: "\<And>c. Block_body stmt c body' = Block_body stmt' c body'"
    by (rule Block_body_cong) (use h in auto)
  show ?thesis
    unfolding If_body_def assms(1-5) by (simp only: a b c)
qed

fun Stmt_loop :: "collab \<Rightarrow> string list \<Rightarrow> cstate \<Rightarrow> ast_Stmt \<Rightarrow> error + cstate" where
  "Stmt_loop co labels s NilStmt = Inr s"
| "Stmt_loop co labels s (AssignStmt lhs tok rhs) = emit (Comp_Assign co lhs tok rhs (chain s)) s"
| "Stmt_loop co labels s (BlockStmt list) = Block_body (\<lambda>c n. Stmt_loop co [] c n) s (Some list)"
| "Stmt_loop co labels s (BranchStmt tok label) = Branch tok label s"
| "Stmt_loop co labels s (CaseClause list) = Inl (misplacedCase (list = None))"
| "Stmt_loop co labels s (CommClause comm) = Inl (misplacedCase (comm = NilStmt))"
| "Stmt_loop co labels s (DeclStmt decl) = emit (Comp_Decl co decl (chain s)) s"
| "Stmt_loop co labels s (DeferStmt call) = Defer co call s"
| "Stmt_loop co labels s EmptyStmt = Inr s"
| "Stmt_loop co labels s (ExprStmt x) =
     (case Comp_Expr co x (chain s) of
        Inl e \<Rightarrow> Inl e
      | Inr expr \<Rightarrow> Inr (if \<not> Const expr then append_stmt (AsStmt expr) s else s))"
| "Stmt_loop co labels s (ForStmt init cond post body) =
     For_body co (\<lambda>c n. Stmt_loop co [] c n) s init cond post body labels"
| "Stmt_loop co labels s (GoStmt call) = Go co call s"
| "Stmt_loop co labels s (IfStmt init cond body els) =
     If_body co (\<lambda>c n. Stmt_loop co [] c n) s init cond body els"
| "Stmt_loop co labels s (IncDecStmt x tok) = IncDec co x tok s"
| "Stmt_loop co labels s (LabeledStmt label stmt) = Stmt_loop co (labels @ [label]) s stmt"
| "Stmt_loop co labels s (RangeStmt node) = emit (Comp_Range co node labels (chain s)) s"
| "Stmt_loop co labels s (ReturnStmt results) = Return co results s"
| "Stmt_loop co labels s (SelectStmt node) = emit (Comp_Select co node labels (chain s)) s"
| "Stmt_loop co labels s (SendStmt node) = emit (Comp_Send co node (chain s)) s"
| "Stmt_loop co labels s (SwitchStmt node) = emit (Comp_Switch co node labels (chain s)) s"
| "Stmt_loop co labels s (TypeSwitchStmt node) = emit (Comp_TypeSwitch co node labels (chain s)) s"
| "Stmt_loop co labels s BadStmt = Inl (Errorf ''unimplemented statement: %v <%v>'' [A_node, A_node])"

definition Stmt :: "collab \<Rightarrow> cstate \<Rightarrow> ast_Stmt \<Rightarrow> error + cstate" where
  "Stmt co s node = Stmt_loop co [] s node"


definition Block :: "collab \<Rightarrow> cstate \<Rightarrow> ast_Stmt list option \<Rightarrow> error + cstate" where
  "Block co s block = Block_body (Stmt co) s block"

definition List :: "collab \<Rightarrow> cstate \<Rightarrow> ast_Stmt list \<Rightarrow> error + cstate" where
  "List co s list = List_body (Stmt co) s list"

definition For :: "collab \<Rightarrow> cstate \<Rightarrow> ast_Stmt \<Rightarrow> ast_Expr option \<Rightarrow> ast_Stmt \<Rightarrow> ast_Stmt list option
                     \<Rightarrow> string list \<Rightarrow> error + cstate" where
  "For co s init cond post body labels = For_body co (Stmt co) s init cond post body labels"

definition If_stmt :: "collab \<Rightarrow> cstate \<Rightarrow> ast_Stmt \<Rightarrow> ast_Expr \<Rightarrow> ast_Stmt list option \<Rightarrow> ast_Stmt
                     \<Rightarrow> error + cstate" where
  "If_stmt co s init cond body els = If_body co (Stmt co) s init cond body els"

subsection \<open>Run time: environments, thread globals and the closures' bodies\<close>

datatype Signal = SigNone | SigReturn | SigDefer

record Env =
  IP :: nat
  Binds :: nat
  IntBinds :: nat

text \<open>
  The closure installed by a \<^verbatim>\<open>defer\<close>: \<^verbatim>\<open>func() { f.Call(args) }\<close> or
  \<^verbatim>\<open>func() { f.CallSlice(args) }\<close>, with the values it captured.
\<close>

datatype deferred = Defer_Call Value "Value list" | Defer_CallSlice Value "Value list"

text \<open>
  The fields of \<^verbatim>\<open>ThreadGlobals\<close> that statement.go names. \<open>FileEnv\<close>, \<open>TopEnv\<close> and
  \<open>Globals\<close> are references, kept as the identity of what they point to.
\<close>

record ThreadGlobals =
  FileEnv :: nat
  TopEnv :: nat
  Interrupt :: "instr option"
  Signal :: Signal
  PoolSize :: nat
  Pool :: "Env list"
  InstallDefer :: "deferred option"
  Globals :: nat

text \<open>
  A call started by \<^verbatim>\<open>go funv.Call(argv)\<close>: it runs on its own, and the launching thread
  only records that it started it, with the environment made for it.
\<close>

record goroutine =
  go_Env :: Env
  go_ThreadGlobals :: ThreadGlobals
  go_funv :: Value
  go_argv :: "Value list"

text \<open>
  The state of one thread: the current \<^verbatim>\<open>env\<close>, the chain \<^verbatim>\<open>env.Outer, ...\<close>, the
  variables, \<^verbatim>\<open>env.ThreadGlobals\<close> and the goroutines started so far.
\<close>

record rstate =
  env :: Env
  Outer :: "Env list"
  vars :: store
  tg :: ThreadGlobals
  started :: "goroutine list"

text \<open>
  What a closure returns: \<open>Next\<close> for \<^verbatim>\<open>return env.Code[env.IP], env\<close>, \<open>Interrupted\<close> for
  \<^verbatim>\<open>return g.Interrupt, env\<close>, and \<open>Panicked\<close> when the closure panics.
\<close>

datatype outcome = Next rstate | Interrupted "instr option" rstate | Panicked rstate

text \<open>
  Modelled from the spec: \<^verbatim>\<open>NewEnv\<close>, \<^verbatim>\<open>NewEnv4Func\<close> and \<^verbatim>\<open>Env.FreeEnv\<close> are not in
  statement.go. A Runtime Environment has "local binding slots ... pre-sized from the
  matching Compiler Frame's counts, current instruction pointer, parent environment,
  shared per-goroutine ThreadGlobals"; it is "returned to a reuse pool" when control leaves
  its block, and the pool holds "reusable Runtime Environment objects for this thread" (3).
  The new environment starts at the instruction pointer of its parent (the closure of
  \<^verbatim>\<open>pushEnvIfFlag\<close> increments it to reach the next instruction).
\<close>

definition take_from_pool :: "ThreadGlobals \<Rightarrow> ThreadGlobals" where
  "take_from_pool g =
     (if 0 < PoolSize g then g\<lparr>PoolSize := PoolSize g - 1, Pool := tl (Pool g)\<rparr> else g)"

definition NewEnv :: "nat \<Rightarrow> nat \<Rightarrow> rstate \<Rightarrow> rstate" where
  "NewEnv nbinds nintbinds r =
     r\<lparr>env := \<lparr>IP = IP (env r), Binds = nbinds, IntBinds = nintbinds\<rparr>,
       Outer := env r # Outer r,
       tg := take_from_pool (tg r)\<rparr>"

text \<open>
  Modelled from the spec: \<^verbatim>\<open>NewEnv4Func\<close> is not in statement.go; \<^verbatim>\<open>Go\<close> "allocate[s] a
  new Runtime Environment" with it (4.8). That environment does not become the current
  one: the result is the new environment and the thread globals of the caller.
\<close>

definition NewEnv4Func :: "nat \<Rightarrow> nat \<Rightarrow> rstate \<Rightarrow> Env \<times> ThreadGlobals" where
  "NewEnv4Func nbinds nintbinds r =
     (\<lparr>IP = IP (env r), Binds = nbinds, IntBinds = nintbinds\<rparr>, take_from_pool (tg r))"

definition FreeEnv :: "Env \<Rightarrow> ThreadGlobals \<Rightarrow> ThreadGlobals" where
  "FreeEnv e g = g\<lparr>PoolSize := PoolSize g + 1, Pool := e # Pool g\<rparr>"

text \<open>\<^verbatim>\<open>env = env.Outer\<close>, \<open>n\<close> times; a nil \<^verbatim>\<open>env\<close> panics.\<close>

fun Outer_hops :: "nat \<Rightarrow> rstate \<Rightarrow> rstate option" where
  "Outer_hops 0 r = Some r"
| "Outer_hops (Suc n) r =
     (case Outer r of
        [] \<Rightarrow> None
      | e # es \<Rightarrow> Outer_hops n (r\<lparr>env := e, Outer := es\<rparr>))"

definition jump_to :: "nat \<Rightarrow> rstate \<Rightarrow> rstate" where
  "jump_to ip r = r\<lparr>env := (env r)\<lparr>IP := ip\<rparr>\<rparr>"

text \<open>\<^verbatim>\<open>for i, argfun := range argfunsX1 { argv[i] = argfun(env2) }\<close> of \<^verbatim>\<open>Go\<close>\<close>

fun Go_args :: "Value closure list \<Rightarrow> store \<Rightarrow> (Value list \<times> store) option" where
  "Go_args [] m = Some ([], m)"
| "Go_args (argfun # rest) m =
     (case argfun m of
        None \<Rightarrow> None
      | Some (v, m1) \<Rightarrow>
         (case Go_args rest m1 of
            None \<Rightarrow> None
          | Some (vs, m2) \<Rightarrow> Some (v # vs, m2)))"

text \<open>
  The loop of \<^verbatim>\<open>Defer\<close>:
  \<^verbatim>\<open>v := argfun(env); if v.CanSet() { v = v.Convert(v.Type()) }; args[i] = v\<close>
\<close>

fun Defer_args :: "Value closure list \<Rightarrow> store \<Rightarrow> (Value list \<times> store) option" where
  "Defer_args [] m = Some ([], m)"
| "Defer_args (argfun # rest) m =
     (case argfun m of
        None \<Rightarrow> None
      | Some (v, m1) \<Rightarrow>
         (let v' = (if CanSet v then Convert m1 v else v)
          in case Defer_args rest m1 of
               None \<Rightarrow> None
             | Some (vs, m2) \<Rightarrow> Some (v' # vs, m2)))"

text \<open>
  \<^verbatim>\<open>for i, assign := range assigns { assign(env, vals[i]) }\<close> of \<^verbatim>\<open>returnMultiValues\<close>:
  \<open>Inl\<close> is the store at the panic of \<^verbatim>\<open>vals[i]\<close> out of range.
\<close>

fun assign_loop :: "(store \<Rightarrow> Value \<Rightarrow> store) list \<Rightarrow> Value list \<Rightarrow> store \<Rightarrow> store + store" where
  "assign_loop [] vals m = Inr m"
| "assign_loop (assign # rest) [] m = Inl m"
| "assign_loop (assign # rest) (v # vals) m = assign_loop rest vals (assign m v)"

text \<open>
  The body of each closure. \<open>cs\<close> holds the integers the closures captured by address;
  every address in an instruction was allocated by the compiler.
\<close>

fun exec :: "nat list \<Rightarrow> instr \<Rightarrow> rstate \<Rightarrow> outcome" where
  "exec cs stmtNop r = Next (jump_to (IP (env r) + 1) r)"
| "exec cs popEnv r =
     (case Outer r of
        [] \<Rightarrow> Panicked r
      | out # es \<Rightarrow>
          Next (r\<lparr>env := out\<lparr>IP := IP (env r) + 1\<rparr>, Outer := es, tg := FreeEnv (env r) (tg r)\<rparr>))"
| "exec cs (pushEnv_stmt nbinds) r =
     (let inner = NewEnv (cs ! nbinds) (cs ! (nbinds + 1)) r
      in Next (jump_to (IP (env inner) + 1) inner))"
| "exec cs (jumpOut0 ip) r = Next (jump_to (cs ! ip) r)"
| "exec cs (jumpOut1 ip) r =
     (case Outer_hops 1 r of None \<Rightarrow> Panicked r | Some r1 \<Rightarrow> Next (jump_to (cs ! ip) r1))"
| "exec cs (jumpOut2 ip) r =
     (case Outer_hops 2 r of None \<Rightarrow> Panicked r | Some r1 \<Rightarrow> Next (jump_to (cs ! ip) r1))"
| "exec cs (jumpOutN upn ip) r =
     (case Outer_hops 3 r of
        None \<Rightarrow> Panicked r
      | Some r1 \<Rightarrow>
         (case Outer_hops (upn - 3) r1 of
            None \<Rightarrow> Panicked r
          | Some r2 \<Rightarrow> Next (jump_to (cs ! ip) r2)))"
| "exec cs (For_cond fn jump_Break) r =
     (case fn (vars r) of
        None \<Rightarrow> Panicked r
      | Some (b, m) \<Rightarrow>
          Next (jump_to (if b then IP (env r) + 1 else cs ! jump_Break) (r\<lparr>vars := m\<rparr>)))"
| "exec cs (For_jump jump_Cond) r = Next (jump_to (cs ! jump_Cond) r)"
| "exec cs (If_cond fn jump_Then jump_Else) r =
     (case fn (vars r) of
        None \<Rightarrow> Panicked r
      | Some (b, m) \<Rightarrow>
          Next (jump_to (if b then cs ! jump_Then else cs ! jump_Else) (r\<lparr>vars := m\<rparr>)))"
| "exec cs (If_goto jump_End) r = Next (jump_to (cs ! jump_End) r)"
| "exec cs (Go_stmt exprfun argfunsX1) r =
     (case NewEnv4Func 0 0 r of (env2, g) \<Rightarrow>
      (let r0 = r\<lparr>tg := g\<rparr>;
           tg2 = \<lparr>FileEnv = FileEnv g, TopEnv = TopEnv g, Interrupt = None, Signal = SigNone,
                  PoolSize = 0, Pool = [], InstallDefer = None, Globals = Globals g\<rparr>
       in case exprfun (vars r0) of
            None \<Rightarrow> Panicked r0
          | Some (funv, m1) \<Rightarrow>
             (case Go_args argfunsX1 m1 of
                None \<Rightarrow> Panicked (r0\<lparr>vars := m1\<rparr>)
              | Some (argv, m2) \<Rightarrow>
                  Next (jump_to (IP (env r) + 1)
                         (r0\<lparr>vars := m2,
                             started := started r0 @
                               [\<lparr>go_Env = env2, go_ThreadGlobals = tg2, go_funv = funv,
                                 go_argv = argv\<rparr>]\<rparr>)))))"
| "exec cs (Defer_stmt fn argfuns ellipsis) r =
     (case fn (vars r) of
        None \<Rightarrow> Panicked r
      | Some (f, m1) \<Rightarrow>
         (let f' = (if CanSet f then Convert m1 f else f)
          in case Defer_args argfuns m1 of
               None \<Rightarrow> Panicked (r\<lparr>vars := m1\<rparr>)
             | Some (args, m2) \<Rightarrow>
                (let r1 = jump_to (IP (env r) + 1) (r\<lparr>vars := m2\<rparr>);
                     g = (tg r1)\<lparr>InstallDefer :=
                                    Some (if ellipsis then Defer_CallSlice f' args else Defer_Call f' args),
                                  Signal := SigDefer\<rparr>
                 in Interrupted (Interrupt g) (r1\<lparr>tg := g\<rparr>))))"
| "exec cs stmtReturn r =
     (let common = (tg r)\<lparr>Signal := SigReturn\<rparr>
      in Interrupted (Interrupt common) (r\<lparr>tg := common\<rparr>))"
| "exec cs (returnMultiValues_stmt fn assigns) r =
     (case fn (vars r) of
        None \<Rightarrow> Panicked r
      | Some (vals, m1) \<Rightarrow>
         (case assign_loop assigns vals m1 of
            Inl m2 \<Rightarrow> Panicked (r\<lparr>vars := m2\<rparr>)
          | Inr m2 \<Rightarrow>
             (let common = (tg r)\<lparr>Signal := SigReturn\<rparr>
              in Interrupted (Interrupt common) (r\<lparr>vars := m2, tg := common\<rparr>))))"
| "exec cs (Collab_stmt f) r =
     (case f (vars r) of
        None \<Rightarrow> Panicked r
      | Some (u, m) \<Rightarrow> Next (jump_to (IP (env r) + 1) (r\<lparr>vars := m\<rparr>)))"

text \<open>
  Modelled from the spec: the executor is not in statement.go. "The Runtime Environment is
  driven by a trampoline loop that repeatedly invokes 'current instruction' and follows the
  returned (instruction, environment) pair" (2); the stream has run to completion when the
  instruction pointer has passed its last instruction. \<open>run\<close> takes at most \<open>fuel\<close> steps
  and returns the instructions it executed, in order, and how it stopped.
\<close>

datatype stopped = Completed rstate | Signalled "instr option" rstate | Panic rstate | OutOfFuel

fun run :: "nat \<Rightarrow> instr list \<Rightarrow> nat list \<Rightarrow> rstate \<Rightarrow> instr list \<times> stopped" where
  "run 0 stream cs r = ([], OutOfFuel)"
| "run (Suc fuel) stream cs r =
     (if length stream \<le> IP (env r) then ([], Completed r)
      else
       (let i = stream ! IP (env r)
        in case exec cs i r of
             Next r1 \<Rightarrow> (case run fuel stream cs r1 of (trace, res) \<Rightarrow> (i # trace, res))
           | Interrupted next r1 \<Rightarrow> ([i], Signalled next r1)
           | Panicked r1 \<Rightarrow> ([i], Panic r1)))"

subsection \<open>Predicates on compile states\<close>

text \<open>
  \<open>grows s s'\<close>: the frame of \<open>s'\<close> has the same chain of outer frames as that of \<open>s\<close> and its
  code is the code of \<open>s\<close> with instructions added at the end. \<open>extends s s'\<close>: moreover the
  frame itself kept its up-cost, depth, loop and function info.
\<close>

definition grows :: "cstate \<Rightarrow> cstate \<Rightarrow> bool" where
  "grows s s' \<longleftrightarrow> outer s' = outer s \<and> (\<exists>xs. code s' = code s @ xs)"

definition same_frame :: "Comp \<Rightarrow> Comp \<Rightarrow> bool" where
  "same_frame c c' \<longleftrightarrow>
     UpCost c' = UpCost c \<and> Depth c' = Depth c \<and> Loop c' = Loop c \<and> Func c' = Func c"

definition extends :: "cstate \<Rightarrow> cstate \<Rightarrow> bool" where
  "extends s s' \<longleftrightarrow> grows s s' \<and> same_frame (cur s) (cur s')"


subsection \<open>A small collaborator, to run the compiler on concrete programs\<close>

text \<open>
  \<open>BasicLit ''true''\<close> and \<open>BasicLit ''false''\<close> are the constants, \<open>OtherExpr a\<close> is the variable
  stored at \<open>a\<close>, a call returns its arguments. A definition \<^verbatim>\<open>x, y := ...\<close> declares one
  binding for each name on its left and compiles to one instruction. \<open>top\<close> is the state
  of a compiler with the frame \<^verbatim>\<open>NewComp(nil, nil)\<close> and no code.
\<close>

definition const_Expr :: "bool \<Rightarrow> Expr" where
  "const_Expr b =
     \<lparr>Const = True, AsStmt = stmtNop, TryAsPred = (b, None, False),
      AsX1 = (\<lambda>m. Some (Plain (if b then 1 else 0), m)),
      AsXV = (\<lambda>m. Some ([Plain (if b then 1 else 0)], m)),
      Out = (\<lambda>i. ''bool'')\<rparr>"

definition var_Expr :: "nat \<Rightarrow> Expr" where
  "var_Expr a =
     \<lparr>Const = False, AsStmt = Collab_stmt (\<lambda>m. Some ((), m)),
      TryAsPred = (False, Some (\<lambda>m. Some (m a \<noteq> 0, m)), False),
      AsX1 = (\<lambda>m. Some (Settable a, m)),
      AsXV = (\<lambda>m. Some ([Settable a], m)),
      Out = (\<lambda>i. ''int'')\<rparr>"

fun toy_Expr :: "ast_Expr \<Rightarrow> Expr" where
  "toy_Expr (BasicLit lit) = const_Expr (lit = ''true'')"
| "toy_Expr (OtherExpr a) = var_Expr a"
| "toy_Expr (Ident name) =
     \<lparr>Const = False, AsStmt = Collab_stmt (\<lambda>m. Some ((), m)),
      TryAsPred = (False, None, True),
      AsX1 = (\<lambda>m. Some (Plain (int (length name)), m)),
      AsXV = (\<lambda>m. Some ([Plain (int (length name))], m)),
      Out = (\<lambda>i. ''func'')\<rparr>"
| "toy_Expr (CallExpr f args ellipsis) =
     \<lparr>Const = False, AsStmt = Collab_stmt (\<lambda>m. Some ((), m)),
      TryAsPred = (False, None, True),
      AsX1 = (\<lambda>m. Some (Plain 0, m)),
      AsXV = (\<lambda>m. Some (map (\<lambda>a. case a of OtherExpr x \<Rightarrow> Settable x | _ \<Rightarrow> Plain 0) args, m)),
      Out = (\<lambda>i. if ellipsis then ''string'' else ''int'')\<rparr>"

definition toy_emit :: "error + emitted" where
  "toy_emit = Inr ([Collab_stmt (\<lambda>m. Some ((), m))], 0, 0)"

definition toy :: collab where
  "toy =
     \<lparr>Comp_Assign = (\<lambda>lhs tok rhs ch.
          Inr ([Collab_stmt (\<lambda>m. Some ((), m))], if tok = DEFINE then length lhs else 0, 0)),
      Comp_Decl = (\<lambda>decl ch. Inl (CollabError 0)),
      Comp_Expr = (\<lambda>node ch. Inr (toy_Expr node)),
      Comp_invalidPred = (\<lambda>node pred. CollabError 1),
      Comp_prepareCall = (\<lambda>node ch.
          case node of
            CallExpr f args ellipsis \<Rightarrow>
              Inr \<lparr>Fun = toy_Expr f, MakeArgfunsX1 = map (\<lambda>a. AsX1 (toy_Expr a)) args,
                   Ellipsis = ellipsis\<rparr>
          | _ \<Rightarrow> Inl (CollabError 2)),
      Comp_Place = (\<lambda>node ch. Inr 0),
      Comp_untypedOne = const_Expr True,
      Comp_SetPlace = (\<lambda>place op one ch. toy_emit),
      Comp_SetVar = (\<lambda>v op e ch. toy_emit),
      Comp_ExprsMultipleValues = (\<lambda>nodes n ch. Inr (map toy_Expr nodes)),
      Comp_varSetValue = (\<lambda>v ch m x. m(length (Bind_Name (Var_Bind v)) := Interface m x)),
      Type_AssignableTo = (\<lambda>tactual texpected. tactual = texpected),
      Comp_Range = (\<lambda>node labels ch. toy_emit),
      Comp_Select = (\<lambda>node labels ch. toy_emit),
      Comp_Send = (\<lambda>node ch. toy_emit),
      Comp_Switch = (\<lambda>node labels ch. toy_emit),
      Comp_TypeSwitch = (\<lambda>node labels ch. toy_emit)\<rparr>"

definition root_Comp :: Comp where
  "root_Comp = \<lparr>Code = \<lparr>Code_List = [], WithDefers = False\<rparr>, UpCost = 1, Depth = 0,
                 BindNum = 0, IntBindNum = 0, Loop = None, Func = None\<rparr>"

definition top :: cstate where
  "top = \<lparr>cur = root_Comp, outer = [], cells = []\<rparr>"

text \<open>
  A listing of compiled code without the closures, to compare code by evaluation.
\<close>

fun mnemonic :: "instr \<Rightarrow> string \<times> nat list" where
  "mnemonic stmtNop = (''nop'', [])"
| "mnemonic popEnv = (''popEnv'', [])"
| "mnemonic (pushEnv_stmt nbinds) = (''pushEnv'', [nbinds])"
| "mnemonic (jumpOut0 ip) = (''jumpOut'', [0, ip])"
| "mnemonic (jumpOut1 ip) = (''jumpOut'', [1, ip])"
| "mnemonic (jumpOut2 ip) = (''jumpOut'', [2, ip])"
| "mnemonic (jumpOutN upn ip) = (''jumpOut'', [upn, ip])"
| "mnemonic (For_cond fn a) = (''for-test'', [a])"
| "mnemonic (For_jump a) = (''for-jump'', [a])"
| "mnemonic (If_cond fn a b) = (''if-test'', [a, b])"
| "mnemonic (If_goto a) = (''if-goto'', [a])"
| "mnemonic (Go_stmt f args) = (''go'', [])"
| "mnemonic (Defer_stmt f args e) = (''defer'', [])"
| "mnemonic stmtReturn = (''return'', [])"
| "mnemonic (returnMultiValues_stmt f assigns) = (''return-call'', [])"
| "mnemonic (Collab_stmt f) = (''collab'', [])"

definition listing :: "error + cstate \<Rightarrow> error + (string \<times> nat list) list \<times> nat list" where
  "listing r = (case r of Inl e \<Rightarrow> Inl e | Inr s \<Rightarrow> Inr (map mnemonic (code s), cells s))"

text \<open>A thread at the first instruction, with the variables \<open>m\<close>, to run instructions.\<close>

definition tg0 :: ThreadGlobals where
  "tg0 = \<lparr>FileEnv = 1, TopEnv = 2, Interrupt = Some stmtNop, Signal = SigNone, PoolSize = 0,
          Pool = [], InstallDefer = None, Globals = 3\<rparr>"

definition thread0 :: "store \<Rightarrow> rstate" where
  "thread0 m = \<lparr>env = \<lparr>IP = 0, Binds = 0, IntBinds = 0\<rparr>, Outer = [], vars = m, tg = tg0,
                started = []\<rparr>"

text \<open>
  \<open>in_func binds named\<close> is the state of a compiler whose frame is the root frame of a
  function with the result bindings \<open>binds\<close>.
\<close>

definition in_func :: "Bind list \<Rightarrow> bool \<Rightarrow> cstate" where
  "in_func binds named = top\<lparr>cur := root_Comp\<lparr>Func := Some \<lparr>Results = binds, NamedResults = named\<rparr>\<rparr>\<rparr>"

text \<open>The result bindings of a function with the results \<^verbatim>\<open>(a, bb int)\<close>.\<close>

definition two_ints :: "Bind list" where
  "two_ints = [\<lparr>Bind_Name = ''a'', Bind_Type = ''int''\<rparr>, \<lparr>Bind_Name = ''bb'', Bind_Type = ''int''\<rparr>]"

section \<open>Every statement only adds code to its own frame\<close>

lemma grows_refl: "grows s s"
  by (simp add: grows_def)

lemma grows_trans: "grows s t \<Longrightarrow> grows t u \<Longrightarrow> grows s u"
  by (auto simp: grows_def)

lemma extends_refl: "extends s s"
  by (simp add: extends_def grows_refl same_frame_def)

lemma extends_trans: "extends s t \<Longrightarrow> extends t u \<Longrightarrow> extends s u"
  by (auto simp: extends_def same_frame_def intro: grows_trans)

lemma extends_grows: "extends s t \<Longrightarrow> grows s t"
  by (simp add: extends_def)

lemma code_append_list: "Code_List (Code (append_list xs c)) = Code_List (Code c) @ xs"
  by (simp add: append_list_def)

lemma append_list_fields:
  "UpCost (append_list xs c) = UpCost c" "Depth (append_list xs c) = Depth c"
  "Loop (append_list xs c) = Loop c" "Func (append_list xs c) = Func c"
  "BindNum (append_list xs c) = BindNum c" "IntBindNum (append_list xs c) = IntBindNum c"
  by (simp_all add: append_list_def)

lemma append_stmt_simps:
  "code (append_stmt i s) = code s @ [i]" "outer (append_stmt i s) = outer s"
  "cells (append_stmt i s) = cells s" "Len (append_stmt i s) = Suc (Len s)"
  "BindNum (cur (append_stmt i s)) = BindNum (cur s)"
  "IntBindNum (cur (append_stmt i s)) = IntBindNum (cur s)"
  by (simp_all add: append_stmt_def code_def Len_def append_list_def)

lemma set_cell_simps:
  "code (set_cell a v s) = code s" "outer (set_cell a v s) = outer s"
  "cur (set_cell a v s) = cur s" "Len (set_cell a v s) = Len s"
  "chain (set_cell a v s) = chain s"
  by (simp_all add: set_cell_def code_def Len_def chain_def)

lemma alloc_simps:
  "fst (alloc n s) = length (cells s)"
  "code (snd (alloc n s)) = code s" "outer (snd (alloc n s)) = outer s"
  "cur (snd (alloc n s)) = cur s" "cells (snd (alloc n s)) = cells s @ replicate n 0"
  by (simp_all add: alloc_def code_def)

lemma extends_append_stmt: "extends s (append_stmt i s)"
  by (simp add: extends_def grows_def same_frame_def append_stmt_simps)
     (simp add: append_stmt_def append_list_def)

lemma extends_set_cell: "extends s (set_cell a v s)"
  by (simp add: extends_def grows_def same_frame_def set_cell_simps)

lemma extends_alloc: "extends s (snd (alloc n s))"
  by (simp add: extends_def grows_def same_frame_def alloc_simps)

lemma emit_extends: "emit r s = Inr s' \<Longrightarrow> extends s s'"
  by (auto simp: emit_def extends_def grows_def same_frame_def code_def append_list_def
           split: sum.splits prod.splits)

lemma jumpOut_extends: "extends s (jumpOut upn ip s)"
  unfolding jumpOut_def by (rule extends_append_stmt)

lemma Break_extends: "Break l s = Inr s' \<Longrightarrow> extends s s'"
  by (auto simp: Break_def Let_def jumpOut_extends split: option.splits prod.splits if_splits)

lemma Continue_extends: "Continue l s = Inr s' \<Longrightarrow> extends s s'"
  by (auto simp: Continue_def Let_def jumpOut_extends split: option.splits prod.splits if_splits)

lemma Branch_extends: "Branch tok l s = Inr s' \<Longrightarrow> extends s s'"
  by (auto simp: Branch_def Break_extends Continue_extends split: if_splits)

lemma Defer_extends: "Defer co call s = Inr s' \<Longrightarrow> extends s s'"
  by (auto simp: Defer_def Let_def extends_def grows_def same_frame_def code_def
                 append_stmt_def append_list_def split: sum.splits)

lemma Go_extends: "Go co call s = Inr s' \<Longrightarrow> extends s s'"
  by (auto simp: Go_def Let_def extends_def grows_def same_frame_def code_def NewComp_def
                 append_list_def split: sum.splits)

lemma IncDec_extends: "IncDec co x tok s = Inr s' \<Longrightarrow> extends s s'"
  by (auto simp: IncDec_def Let_def emit_extends split: sum.splits)

lemma Return_assign_extends:
  "Return_assign co binds exprs upn idx s = Inr s' \<Longrightarrow> extends s s'"
proof (induction idx arbitrary: s)
  case Nil
  then show ?case by (simp add: extends_refl)
next
  case (Cons i idx)
  then show ?case
    by (auto split: if_splits sum.splits dest!: emit_extends intro: extends_trans)
qed

lemma Return_exprs_extends: "Return_exprs co binds upn exprs n s = Inr s' \<Longrightarrow> extends s s'"
  by (auto simp: Return_exprs_def split: sum.splits
           dest!: Return_assign_extends intro: extends_trans extends_append_stmt)

lemma returnMultiValues_extends:
  "returnMultiValues co binds upn exprs s = Inr s' \<Longrightarrow> extends s s'"
  by (auto simp: returnMultiValues_def Let_def extends_append_stmt split: sum.splits list.splits)

lemma Return_extends: "Return co results s = Inr s' \<Longrightarrow> extends s s'"
  by (auto simp: Return_def Let_def split: option.splits prod.splits if_splits
           dest: Return_exprs_extends returnMultiValues_extends)


lemma pushEnvIfFlag_simps:
  "snd (pushEnvIfFlag nb flag s) = flag"
  "outer (fst (pushEnvIfFlag nb flag s)) =
     (if flag then cur (append_stmt (pushEnv_stmt nb) s) else cur s) # outer s"
  "code (fst (pushEnvIfFlag nb flag s)) = code s @ (if flag then [pushEnv_stmt nb] else [])"
  "cells (fst (pushEnvIfFlag nb flag s)) = cells s"
  "BindNum (cur (fst (pushEnvIfFlag nb flag s))) = 0"
  "IntBindNum (cur (fst (pushEnvIfFlag nb flag s))) = 0"
  "UpCost (cur (fst (pushEnvIfFlag nb flag s))) = (if flag then 1 else 0)"
  "Depth (cur (fst (pushEnvIfFlag nb flag s))) = (if flag then Depth (cur s) + 1 else Depth (cur s))"
  "Loop (cur (fst (pushEnvIfFlag nb flag s))) = None"
  "Func (cur (fst (pushEnvIfFlag nb flag s))) = None"
  by (simp_all add: pushEnvIfFlag_def Let_def NewComp_def code_def append_stmt_def append_list_def)

lemma pushEnvIfLocalBinds_Inr:
  assumes "pushEnvIfLocalBinds nb list s = Inr (c2, locals)"
  shows "list \<noteq> []" "locals = containLocalBinds_loop list"
    "c2 = fst (pushEnvIfFlag nb locals s)"
proof -
  show ne: "list \<noteq> []"
    using assms by (auto simp: pushEnvIfLocalBinds_def split: if_splits)
  then have e: "pushEnvIfFlag nb (containLocalBinds_loop list) s = (c2, locals)"
    using assms by (simp add: pushEnvIfLocalBinds_def containLocalBinds_def)
  from arg_cong[OF e, of snd] show l: "locals = containLocalBinds_loop list"
    by (simp add: pushEnvIfFlag_simps)
  from arg_cong[OF e, of fst] show "c2 = fst (pushEnvIfFlag nb locals s)"
    by (simp add: l)
qed

lemma popEnvIfLocalBinds_Inr:
  assumes "popEnvIfLocalBinds locals nb list c3 = Inr s'"
  obtains c rest where "outer c3 = c # rest" "outer s' = rest"
    "code s' = code c3 @ (if locals then [popEnv] else [])"
    "same_frame c (cur s')" "BindNum (cur s') = BindNum c" "IntBindNum (cur s') = IntBindNum c"
    "WithDefers (Code (cur s')) = WithDefers (Code (cur c3))"
    "locals = (BindNum (cur c3) \<noteq> 0 \<or> IntBindNum (cur c3) \<noteq> 0)"
    "cells s' = (cells c3)[nb := BindNum (cur c3), nb + 1 := IntBindNum (cur c3)]"
    "list \<noteq> []"
  using assms
  by (auto simp: popEnvIfLocalBinds_def Let_def same_frame_def code_def set_cell_def
                 append_stmt_def append_list_def
           split: if_splits list.splits)

lemma scope_extends:
  assumes push: "pushEnvIfLocalBinds nb list s = Inr (c2, locals)"
    and g: "grows c2 c3"
    and pop: "popEnvIfLocalBinds locals nb list' c3 = Inr s'"
  shows "extends s s'"
    and "code s' = code c3 @ (if locals then [popEnv] else [])"
    and "BindNum (cur s') = BindNum (cur s)" and "IntBindNum (cur s') = IntBindNum (cur s)"
proof -
  note p = pushEnvIfLocalBinds_Inr[OF push]
  from pop obtain c rest where q: "outer c3 = c # rest" "outer s' = rest"
    "code s' = code c3 @ (if locals then [popEnv] else [])"
    "same_frame c (cur s')" "BindNum (cur s') = BindNum c" "IntBindNum (cur s') = IntBindNum c"
    by (rule popEnvIfLocalBinds_Inr)
  from g have o: "outer c3 = outer c2" and x: "\<exists>xs. code c3 = code c2 @ xs"
    by (simp_all add: grows_def)
  have o2: "outer c2 = (if locals then cur (append_stmt (pushEnv_stmt nb) s) else cur s) # outer s"
    by (simp add: p(3) pushEnvIfFlag_simps)
  have c: "c = (if locals then cur (append_stmt (pushEnv_stmt nb) s) else cur s)" and r: "rest = outer s"
    using q(1) o o2 by simp_all
  have sf: "same_frame (cur s) c"
    by (simp add: c same_frame_def append_stmt_def append_list_def)
  have c2: "code c2 = code s @ (if locals then [pushEnv_stmt nb] else [])"
    by (simp add: p(3) pushEnvIfFlag_simps)
  show "code s' = code c3 @ (if locals then [popEnv] else [])" by (rule q(3))
  show "extends s s'"
    using x q(2,3,4) sf r c2 by (auto simp: extends_def grows_def same_frame_def)
  show "BindNum (cur s') = BindNum (cur s)" "IntBindNum (cur s') = IntBindNum (cur s)"
    by (simp_all add: q(5,6) c append_stmt_simps)
qed

lemma Stmts_body_extends:
  assumes "\<And>c n c'. n \<in> set list \<Longrightarrow> stmt c n = Inr c' \<Longrightarrow> extends c c'"
    and "Stmts_body stmt s list = Inr s'"
  shows "extends s s'"
  using assms
proof (induction list arbitrary: s)
  case Nil
  then show ?case by (simp add: extends_refl)
next
  case (Cons n list)
  from Cons.prems(2) obtain s1 where a: "stmt s n = Inr s1" and b: "Stmts_body stmt s1 list = Inr s'"
    by (auto split: sum.splits)
  have "extends s s1" by (rule Cons.prems(1)[OF _ a]) simp
  moreover have "extends s1 s'" by (rule Cons.IH[OF _ b], rule Cons.prems(1)) simp_all
  ultimately show ?case by (rule extends_trans)
qed

lemma List_body_Inr:
  assumes "List_body stmt s list = Inr s'"
  obtains c2 locals c3 where
    "pushEnvIfLocalBinds (length (cells s)) list (snd (alloc 2 s)) = Inr (c2, locals)"
    "Stmts_body stmt c2 list = Inr c3"
    "popEnvIfLocalBinds locals (length (cells s)) list c3 = Inr s'"
  using assms unfolding List_body_def alloc_def
  by (auto split: if_splits sum.splits prod.splits)

lemma List_body_extends:
  assumes h: "\<And>c n c'. n \<in> set list \<Longrightarrow> stmt c n = Inr c' \<Longrightarrow> extends c c'"
    and r: "List_body stmt s list = Inr s'"
  shows "extends s s'"
proof -
  from r obtain c2 locals c3 where
    a: "pushEnvIfLocalBinds (length (cells s)) list (snd (alloc 2 s)) = Inr (c2, locals)"
    and b: "Stmts_body stmt c2 list = Inr c3"
    and c: "popEnvIfLocalBinds locals (length (cells s)) list c3 = Inr s'"
    by (rule List_body_Inr)
  have "grows c2 c3" using Stmts_body_extends[OF h b] by (simp add: extends_grows)
  then have "extends (snd (alloc 2 s)) s'" by (rule scope_extends(1)[OF a _ c])
  then show ?thesis by (rule extends_trans[OF extends_alloc])
qed

lemma Block_body_extends:
  assumes h: "\<And>c n c' list. block = Some list \<Longrightarrow> n \<in> set list \<Longrightarrow> stmt c n = Inr c' \<Longrightarrow> extends c c'"
    and r: "Block_body stmt s block = Inr s'"
  shows "extends s s'"
proof (cases block)
  case None
  then show ?thesis using r by (simp add: Block_body_def extends_refl)
next
  case (Some list)
  show ?thesis
  proof (cases "list = []")
    case True
    then show ?thesis using r Some by (simp add: Block_body_def extends_refl)
  next
    case False
    then have "List_body stmt s list = Inr s'" using r Some by (simp add: Block_body_def)
    then show ?thesis by (rule List_body_extends[rotated]) (rule h[OF Some])
  qed
qed


lemma Len_code: "Len s = length (code s)"
  by (simp add: Len_def code_def)

lemma truncate_code_simps:
  "code (truncate_code n s) = take n (code s)" "outer (truncate_code n s) = outer s"
  "cells (truncate_code n s) = cells s"
  "BindNum (cur (truncate_code n s)) = BindNum (cur s)"
  "IntBindNum (cur (truncate_code n s)) = IntBindNum (cur s)"
  by (simp_all add: truncate_code_def code_def)

lemma grows_truncate:
  assumes "grows s t"
  shows "grows s (truncate_code (Len s) t)" and "code (truncate_code (Len s) t) = code s"
  using assms by (auto simp: grows_def truncate_code_simps Len_code)

lemma grows_append_stmt: "grows s (append_stmt i s)"
  by (simp add: grows_def append_stmt_simps)

lemma grows_set_cell: "grows s (set_cell a v s)"
  by (simp add: grows_def set_cell_simps)

lemma For_pred_Inr: "For_pred co cond c = Inr (flag, fn, err) \<Longrightarrow> err = False"
  by (auto simp: For_pred_def split: option.splits sum.splits prod.splits if_splits)

lemma If_pred_Inr: "If_pred co cond c = Inr (flag, fn, err) \<Longrightarrow> err = False"
  by (auto simp: If_pred_def split: option.splits sum.splits prod.splits if_splits)

lemma For_loop_eq:
  assumes "For_loop labels fn c2 = (jump, jump_Cond, c6)"
  shows "jump = length (cells c2)" "jump_Cond = Len c2" "outer c6 = outer c2"
    "code c6 = code c2 @ (case fn of None \<Rightarrow> [] | Some f \<Rightarrow> [For_cond f (jump + 2)])"
    "cells c6 = (cells c2 @ [0, 0, 0])[jump := Len c2]"
    "Loop (cur c6) = Some \<lparr>Continue_slot = Some (jump + 1), Break_slot = Some (jump + 2),
                            ThisLabels = sort labels\<rparr>"
    "BindNum (cur c6) = BindNum (cur c2)" "IntBindNum (cur c6) = IntBindNum (cur c2)"
    "UpCost (cur c6) = UpCost (cur c2)" "Func (cur c6) = Func (cur c2)"
  using assms
  by (auto simp: For_loop_def alloc_def Let_def set_cell_def Len_def code_def append_stmt_def
                 append_list_def numeral_3_eq_3
           split: option.splits)

lemma For_loop_grows: "For_loop labels fn c2 = (jump, jump_Cond, c6) \<Longrightarrow> grows c2 c6"
  by (simp add: grows_def For_loop_eq)

lemma For_post_grows:
  assumes h: "\<And>c c'. stmt c post = Inr c' \<Longrightarrow> extends c c'"
    and r: "For_post stmt post jump jump_Cond c7 = Inr c8"
  shows "grows c7 c8"
proof (cases "post = NilStmt")
  case True
  then show ?thesis using r by (auto simp: For_post_def grows_set_cell)
next
  case False
  then have "stmt (set_cell (jump + 1) (Len c7) c7) post = Inr c8"
    using r by (auto simp: For_post_def split: sum.splits if_splits)
  then have "grows (set_cell (jump + 1) (Len c7) c7) c8" using h extends_grows by blast
  then show ?thesis by (rule grows_trans[OF grows_set_cell])
qed

lemma For_jump_back_simps:
  "outer (For_jump_back flag fn jump jump_Cond c8) = outer c8"
  "code (For_jump_back flag fn jump jump_Cond c8) =
     (if fn = None \<and> \<not> flag then take jump_Cond (code c8 @ [For_jump jump])
      else code c8 @ [For_jump jump])"
  "BindNum (cur (For_jump_back flag fn jump jump_Cond c8)) = BindNum (cur c8)"
  "IntBindNum (cur (For_jump_back flag fn jump jump_Cond c8)) = IntBindNum (cur c8)"
  by (auto simp: For_jump_back_def Let_def set_cell_simps truncate_code_simps append_stmt_simps
           split: option.splits)

lemma For_jump_back_grows:
  assumes "grows c2 c8" and "jump_Cond = Len c2"
  shows "grows c2 (For_jump_back flag fn jump jump_Cond c8)"
  using assms by (auto simp: grows_def For_jump_back_simps Len_code)

lemma For_body_Inr:
  assumes "For_body co stmt s init cond post body labels = Inr s'"
  obtains c1 initLocals c2 flag fn jump jump_Cond c6 c7 c8 where
    "pushEnvIfLocalBinds (length (cells s)) [init] (snd (alloc 2 s)) = Inr (c1, initLocals)"
    "(if init \<noteq> NilStmt then stmt c1 init else Inr c1) = Inr c2"
    "For_pred co cond c2 = Inr (flag, fn, False)"
    "For_loop labels fn c2 = (jump, jump_Cond, c6)"
    "Block_body stmt c6 body = Inr c7"
    "For_post stmt post jump jump_Cond c7 = Inr c8"
    "popEnvIfLocalBinds initLocals (length (cells s)) [init]
       (For_jump_back flag fn jump jump_Cond c8) = Inr s'"
proof -
  obtain c1 initLocals where
    a: "pushEnvIfLocalBinds (length (cells s)) [init] (snd (alloc 2 s)) = Inr (c1, initLocals)"
    using assms unfolding For_body_def alloc_def by (auto split: sum.splits)
  obtain c2 where b: "(if init \<noteq> NilStmt then stmt c1 init else Inr c1) = Inr c2"
    using assms a unfolding For_body_def alloc_def by (auto split: sum.splits)
  obtain flag fn err where c: "For_pred co cond c2 = Inr (flag, fn, err)"
    using assms a b unfolding For_body_def alloc_def by (auto split: sum.splits)
  then have c': "For_pred co cond c2 = Inr (flag, fn, False)" using For_pred_Inr by blast
  obtain jump jump_Cond c6 where d: "For_loop labels fn c2 = (jump, jump_Cond, c6)"
    by (cases "For_loop labels fn c2") auto
  obtain c7 where e: "Block_body stmt c6 body = Inr c7"
    using assms a b c d unfolding For_body_def alloc_def by (auto split: sum.splits)
  obtain c8 where f: "For_post stmt post jump jump_Cond c7 = Inr c8"
    using assms a b c d e unfolding For_body_def alloc_def by (auto split: sum.splits)
  have g: "popEnvIfLocalBinds initLocals (length (cells s)) [init]
       (For_jump_back flag fn jump jump_Cond c8) = Inr s'"
    using assms a b c d e f unfolding For_body_def alloc_def by simp
  show ?thesis using that a b c' d e f g by blast
qed

lemma For_body_extends:
  assumes h: "\<And>c n c'. n = init \<or> n = post \<or> (\<exists>l. body = Some l \<and> n \<in> set l)
                \<Longrightarrow> stmt c n = Inr c' \<Longrightarrow> extends c c'"
    and r: "For_body co stmt s init cond post body labels = Inr s'"
  shows "extends s s'"
proof -
  from r obtain c1 initLocals c2 flag fn jump jump_Cond c6 c7 c8 where
    a: "pushEnvIfLocalBinds (length (cells s)) [init] (snd (alloc 2 s)) = Inr (c1, initLocals)"
    and b: "(if init \<noteq> NilStmt then stmt c1 init else Inr c1) = Inr c2"
    and d: "For_loop labels fn c2 = (jump, jump_Cond, c6)"
    and e: "Block_body stmt c6 body = Inr c7"
    and f: "For_post stmt post jump jump_Cond c7 = Inr c8"
    and g: "popEnvIfLocalBinds initLocals (length (cells s)) [init]
       (For_jump_back flag fn jump jump_Cond c8) = Inr s'"
    by (rule For_body_Inr)
  have 1: "grows c1 c2"
    using b h[of init c1 c2] by (auto simp: grows_refl extends_grows split: if_splits)
  have 2: "grows c2 c6" using d by (rule For_loop_grows)
  have 3: "grows c6 c7"
    by (rule extends_grows, rule Block_body_extends[OF _ e]) (use h in blast)
  have 4: "grows c7 c8"
    by (rule For_post_grows[OF _ f]) (use h in blast)
  have "grows c2 c8" by (rule grows_trans[OF 2 grows_trans[OF 3 4]])
  then have "grows c2 (For_jump_back flag fn jump jump_Cond c8)"
    by (rule For_jump_back_grows) (simp add: For_loop_eq(2)[OF d])
  then have "grows c1 (For_jump_back flag fn jump jump_Cond c8)" by (rule grows_trans[OF 1])
  then have "extends (snd (alloc 2 s)) s'" by (rule scope_extends(1)[OF a _ g])
  then show ?thesis by (rule extends_trans[OF extends_alloc])
qed

lemma If_then_eq:
  assumes "If_then fn jump c2 = (jump_Then, c4)"
  shows "jump_Then = Len c4" "outer c4 = outer c2"
    "code c4 = code c2 @ (case fn of None \<Rightarrow> [] | Some f \<Rightarrow> [If_cond f jump (jump + 1)])"
    "cells c4 = (cells c2)[jump := Len c4]"
    "BindNum (cur c4) = BindNum (cur c2)" "IntBindNum (cur c4) = IntBindNum (cur c2)"
  using assms
  by (auto simp: If_then_def Let_def set_cell_def Len_def code_def append_stmt_def append_list_def
           split: option.splits)

lemma If_then_grows: "If_then fn jump c2 = (jump_Then, c4) \<Longrightarrow> grows c2 c4"
  by (simp add: grows_def If_then_eq)

lemma If_between_eq:
  assumes "If_between flag fn els jump jump_Then c5 = (jump_Else, c8)"
  shows "jump_Else = Len c8" "outer c8 = outer c5"
    "code c8 = (if fn = None \<and> \<not> flag then take jump_Then (code c5) else code c5)
               @ (if fn \<noteq> None \<and> els \<noteq> NilStmt then [If_goto (jump + 2)] else [])"
    "BindNum (cur c8) = BindNum (cur c5)" "IntBindNum (cur c8) = IntBindNum (cur c5)"
  using assms
  by (auto simp: If_between_def Let_def set_cell_simps truncate_code_simps append_stmt_simps
                 Len_code
           split: option.splits)

lemma If_between_grows:
  assumes "If_between flag fn els jump jump_Then c5 = (jump_Else, c8)"
    and "grows c4 c5" and "jump_Then = Len c4"
  shows "grows c4 c8"
  using assms(2,3) by (auto simp: grows_def If_between_eq[OF assms(1)] Len_code)

lemma If_else_grows:
  assumes h: "\<And>c c'. stmt c els = Inr c' \<Longrightarrow> extends c c'"
    and r: "If_else stmt flag fn els jump_Else c8 = Inr c10"
    and j: "jump_Else = Len c8"
  shows "grows c8 c10"
proof (cases "els = NilStmt")
  case True
  then show ?thesis using r by (simp add: If_else_def grows_refl)
next
  case False
  have b: "\<And>c c'. Block_body stmt c (Some [els]) = Inr c' \<Longrightarrow> extends c c'"
    by (rule Block_body_extends) (use h in auto)
  obtain c9 where c9: "(case els of BlockStmt list \<Rightarrow> stmt c8 els | IfStmt i c b e \<Rightarrow> stmt c8 els
                        | _ \<Rightarrow> Block_body stmt c8 (Some [els])) = Inr c9"
    and c10: "c10 = (case fn of None \<Rightarrow> if flag then truncate_code jump_Else c9 else c9
                     | Some f \<Rightarrow> c9)"
    using r False by (auto simp: If_else_def split: sum.splits)
  have "extends c8 c9" using c9 h b by (cases els) auto
  then have g: "grows c8 c9" by (rule extends_grows)
  show ?thesis
    unfolding c10 j using g grows_truncate(1)[OF g] by (auto split: option.splits)
qed

lemma If_body_Inr:
  assumes "If_body co stmt s init cond body els = Inr s'"
  obtains c1 initLocals c2 flag fn jump_Then c4 c5 jump_Else c8 c10 where
    "pushEnvIfLocalBinds (length (cells s) + 3) [init] (snd (alloc 2 (snd (alloc 3 s))))
       = Inr (c1, initLocals)"
    "(if init \<noteq> NilStmt then stmt c1 init else Inr c1) = Inr c2"
    "If_pred co cond c2 = Inr (flag, fn, False)"
    "If_then fn (length (cells s)) c2 = (jump_Then, c4)"
    "Block_body stmt c4 body = Inr c5"
    "If_between flag fn els (length (cells s)) jump_Then c5 = (jump_Else, c8)"
    "If_else stmt flag fn els jump_Else c8 = Inr c10"
    "popEnvIfLocalBinds initLocals (length (cells s) + 3) [init]
       (set_cell (length (cells s) + 2) (Len c10) c10) = Inr s'"
proof -
  define j where "j = fst (alloc 3 s)"
  define ib where "ib = fst (alloc 2 (snd (alloc 3 s)))"
  define s1 where "s1 = snd (alloc 2 (snd (alloc 3 s)))"
  have j: "j = length (cells s)" and ib: "ib = length (cells s) + 3"
    by (simp_all add: j_def ib_def alloc_simps)
  have u: "If_body co stmt s init cond body els =
     (case pushEnvIfLocalBinds ib [init] s1 of
        Inl e \<Rightarrow> Inl e
      | Inr (c1, initLocals) \<Rightarrow>
     (case (if init \<noteq> NilStmt then stmt c1 init else Inr c1) of
        Inl e \<Rightarrow> Inl e
      | Inr c2 \<Rightarrow>
     (case If_pred co cond c2 of
        Inl e \<Rightarrow> Inl e
      | Inr (flag, fn, err) \<Rightarrow>
     (case If_then fn j c2 of (jump_Then, c4) \<Rightarrow>
     (case Block_body stmt c4 body of
        Inl e \<Rightarrow> Inl e
      | Inr c5 \<Rightarrow>
     (case If_between flag fn els j jump_Then c5 of (jump_Else, c8) \<Rightarrow>
     (case If_else stmt flag fn els jump_Else c8 of
        Inl e \<Rightarrow> Inl e
      | Inr c10 \<Rightarrow>
         popEnvIfLocalBinds initLocals ib [init]
           (set_cell (j + 2) (Len c10) c10))))))))"
    unfolding If_body_def j_def ib_def s1_def case_prod_unfold by (rule refl)
  obtain c1 initLocals where a: "pushEnvIfLocalBinds ib [init] s1 = Inr (c1, initLocals)"
    using assms unfolding u by (cases "pushEnvIfLocalBinds ib [init] s1") auto
  have u1: "(case (if init \<noteq> NilStmt then stmt c1 init else Inr c1) of
        Inl e \<Rightarrow> Inl e
      | Inr c2 \<Rightarrow>
     (case If_pred co cond c2 of
        Inl e \<Rightarrow> Inl e
      | Inr (flag, fn, err) \<Rightarrow>
     (case If_then fn j c2 of (jump_Then, c4) \<Rightarrow>
     (case Block_body stmt c4 body of
        Inl e \<Rightarrow> Inl e
      | Inr c5 \<Rightarrow>
     (case If_between flag fn els j jump_Then c5 of (jump_Else, c8) \<Rightarrow>
     (case If_else stmt flag fn els jump_Else c8 of
        Inl e \<Rightarrow> Inl e
      | Inr c10 \<Rightarrow>
         popEnvIfLocalBinds initLocals ib [init]
           (set_cell (j + 2) (Len c10) c10))))))) = Inr s'"
    using assms unfolding u a by simp
  obtain c2 where b: "(if init \<noteq> NilStmt then stmt c1 init else Inr c1) = Inr c2"
    using u1 by (cases "if init \<noteq> NilStmt then stmt c1 init else Inr c1") auto
  have u2: "(case If_pred co cond c2 of
        Inl e \<Rightarrow> Inl e
      | Inr (flag, fn, err) \<Rightarrow>
     (case If_then fn j c2 of (jump_Then, c4) \<Rightarrow>
     (case Block_body stmt c4 body of
        Inl e \<Rightarrow> Inl e
      | Inr c5 \<Rightarrow>
     (case If_between flag fn els j jump_Then c5 of (jump_Else, c8) \<Rightarrow>
     (case If_else stmt flag fn els jump_Else c8 of
        Inl e \<Rightarrow> Inl e
      | Inr c10 \<Rightarrow>
         popEnvIfLocalBinds initLocals ib [init]
           (set_cell (j + 2) (Len c10) c10)))))) = Inr s'"
    using u1 unfolding b by simp
  obtain flag fn err where c: "If_pred co cond c2 = Inr (flag, fn, err)"
    using u2 by (cases "If_pred co cond c2") auto
  then have c': "If_pred co cond c2 = Inr (flag, fn, False)" using If_pred_Inr by blast
  obtain jump_Then c4 where d: "If_then fn j c2 = (jump_Then, c4)"
    by (cases "If_then fn j c2") auto
  have u3: "(case Block_body stmt c4 body of
        Inl e \<Rightarrow> Inl e
      | Inr c5 \<Rightarrow>
     (case If_between flag fn els j jump_Then c5 of (jump_Else, c8) \<Rightarrow>
     (case If_else stmt flag fn els jump_Else c8 of
        Inl e \<Rightarrow> Inl e
      | Inr c10 \<Rightarrow>
         popEnvIfLocalBinds initLocals ib [init]
           (set_cell (j + 2) (Len c10) c10)))) = Inr s'"
    using u2 unfolding c by (simp add: d)
  obtain c5 where e: "Block_body stmt c4 body = Inr c5"
    using u3 by (cases "Block_body stmt c4 body") auto
  obtain jump_Else c8 where f: "If_between flag fn els j jump_Then c5 = (jump_Else, c8)"
    by (cases "If_between flag fn els j jump_Then c5") auto
  have u4: "(case If_else stmt flag fn els jump_Else c8 of
        Inl e \<Rightarrow> Inl e
      | Inr c10 \<Rightarrow>
         popEnvIfLocalBinds initLocals ib [init]
           (set_cell (j + 2) (Len c10) c10)) = Inr s'"
    using u3 unfolding e by (simp add: f)
  obtain c10 where g: "If_else stmt flag fn els jump_Else c8 = Inr c10"
    using u4 by (cases "If_else stmt flag fn els jump_Else c8") auto
  have k: "popEnvIfLocalBinds initLocals ib [init] (set_cell (j + 2) (Len c10) c10) = Inr s'"
    using u4 unfolding g by simp
  show ?thesis
    using that[OF a[unfolded ib s1_def] b c'[unfolded j] d[unfolded j] e f[unfolded j] g
               k[unfolded ib j]] .
qed

lemma If_body_extends:
  assumes h: "\<And>c n c'. n = init \<or> n = els \<or> (\<exists>l. body = Some l \<and> n \<in> set l)
                \<Longrightarrow> stmt c n = Inr c' \<Longrightarrow> extends c c'"
    and r: "If_body co stmt s init cond body els = Inr s'"
  shows "extends s s'"
proof -
  from r obtain c1 initLocals c2 flag fn jump_Then c4 c5 jump_Else c8 c10 where
    a: "pushEnvIfLocalBinds (length (cells s) + 3) [init] (snd (alloc 2 (snd (alloc 3 s))))
       = Inr (c1, initLocals)"
    and b: "(if init \<noteq> NilStmt then stmt c1 init else Inr c1) = Inr c2"
    and d: "If_then fn (length (cells s)) c2 = (jump_Then, c4)"
    and e: "Block_body stmt c4 body = Inr c5"
    and f: "If_between flag fn els (length (cells s)) jump_Then c5 = (jump_Else, c8)"
    and g: "If_else stmt flag fn els jump_Else c8 = Inr c10"
    and k: "popEnvIfLocalBinds initLocals (length (cells s) + 3) [init]
       (set_cell (length (cells s) + 2) (Len c10) c10) = Inr s'"
    by (rule If_body_Inr)
  have 1: "grows c1 c2"
    using b h[of init c1 c2] by (auto simp: grows_refl extends_grows split: if_splits)
  have 2: "grows c2 c4" using d by (rule If_then_grows)
  have 3: "grows c4 c5"
    by (rule extends_grows, rule Block_body_extends[OF _ e]) (use h in blast)
  have 4: "grows c4 c8" by (rule If_between_grows[OF f 3 If_then_eq(1)[OF d]])
  have 5: "grows c8 c10"
    by (rule If_else_grows[OF _ g If_between_eq(1)[OF f]]) (use h in blast)
  have "grows c1 c4" by (rule grows_trans[OF 1 2])
  then have "grows c1 c8" by (rule grows_trans[OF _ 4])
  then have "grows c1 c10" by (rule grows_trans[OF _ 5])
  then have "grows c1 (set_cell (length (cells s) + 2) (Len c10) c10)"
    by (rule grows_trans[OF _ grows_set_cell])
  then have "extends (snd (alloc 2 (snd (alloc 3 s)))) s'" by (rule scope_extends(1)[OF a _ k])
  then have "extends (snd (alloc 3 s)) s'" by (rule extends_trans[OF extends_alloc])
  then show ?thesis by (rule extends_trans[OF extends_alloc])
qed




lemma Stmt_loop_extends: "Stmt_loop co labels s node = Inr s' \<Longrightarrow> extends s s'"
proof (induction co labels s node arbitrary: s' rule: Stmt_loop.induct)
  case (1 co labels s)
  then show ?case by (simp add: extends_refl)
next
  case (2 co labels s lhs tok rhs)
  then show ?case by (simp add: emit_extends)
next
  case (3 co labels s list)
  have r: "Block_body (\<lambda>c n. Stmt_loop co [] c n) s (Some list) = Inr s'"
    using "3.prems" by simp
  show ?case
    by (rule Block_body_extends[OF _ r]) (use "3.IH" in auto)
next
  case (4 co labels s tok label)
  then show ?case by (simp add: Branch_extends)
next
  case (5 co labels s list)
  then show ?case by simp
next
  case (6 co labels s comm)
  then show ?case by simp
next
  case (7 co labels s decl)
  then show ?case by (simp add: emit_extends)
next
  case (8 co labels s call)
  then show ?case by (simp add: Defer_extends)
next
  case (9 co labels s)
  then show ?case by (simp add: extends_refl)
next
  case (10 co labels s x)
  then show ?case
    by (auto simp: extends_refl extends_append_stmt split: sum.splits)
next
  case (11 co labels s init cond post body)
  have r: "For_body co (\<lambda>c n. Stmt_loop co [] c n) s init cond post body labels = Inr s'"
    using "11.prems" by simp
  show ?case
    by (rule For_body_extends[OF _ r]) (use "11.IH" in blast)
next
  case (12 co labels s call)
  then show ?case by (simp add: Go_extends)
next
  case (13 co labels s init cond body els)
  have r: "If_body co (\<lambda>c n. Stmt_loop co [] c n) s init cond body els = Inr s'"
    using "13.prems" by simp
  show ?case
    by (rule If_body_extends[OF _ r]) (use "13.IH" in blast)
next
  case (14 co labels s x tok)
  then show ?case by (simp add: IncDec_extends)
next
  case (15 co labels s label stmt)
  then show ?case by simp
next
  case (16 co labels s node)
  then show ?case by (simp add: emit_extends)
next
  case (17 co labels s results)
  then show ?case by (simp add: Return_extends)
next
  case (18 co labels s node)
  then show ?case by (simp add: emit_extends)
next
  case (19 co labels s node)
  then show ?case by (simp add: emit_extends)
next
  case (20 co labels s node)
  then show ?case by (simp add: emit_extends)
next
  case (21 co labels s node)
  then show ?case by (simp add: emit_extends)
next
  case (22 co labels s)
  then show ?case by simp
qed

lemma Stmt_extends: "Stmt co s node = Inr s' \<Longrightarrow> extends s s'"
  unfolding Stmt_def by (rule Stmt_loop_extends)

lemma popEnvIfLocalBinds_False:
  assumes "popEnvIfLocalBinds False nb list c3 = Inr s'" and "outer c3 = c # rest"
  shows "s' = \<lparr>cur = c\<lparr>Code := Code (cur c3)\<rparr>, outer = rest,
               cells = (cells c3)[nb := 0, nb + 1 := 0]\<rparr>"
    and "BindNum (cur c3) = 0" and "IntBindNum (cur c3) = 0"
  using assms
  by (auto simp: popEnvIfLocalBinds_def Let_def set_cell_def split: if_splits)

lemma containLocalBinds_loop_iff: "containLocalBinds_loop list \<longleftrightarrow> list_ex node_binds list"
  by (induction list) auto


lemma Stmts_body_Stmt_extends: "Stmts_body (Stmt co) s list = Inr s' \<Longrightarrow> extends s s'"
  by (rule Stmts_body_extends[of list "Stmt co"]) (auto intro: Stmt_extends)


lemma toy_simps:
  "Comp_Assign toy lhs tok rhs ch =
     Inr ([Collab_stmt (\<lambda>m. Some ((), m))], if tok = DEFINE then length lhs else 0, 0)"
  "Comp_Decl toy decl ch = Inl (CollabError 0)"
  "Comp_Expr toy node ch = Inr (toy_Expr node)"
  "Comp_invalidPred toy node pred = CollabError 1"
  "Comp_prepareCall toy node ch =
     (case node of
        CallExpr f args ellipsis \<Rightarrow>
          Inr \<lparr>Fun = toy_Expr f, MakeArgfunsX1 = map (\<lambda>a. AsX1 (toy_Expr a)) args,
               Ellipsis = ellipsis\<rparr>
      | _ \<Rightarrow> Inl (CollabError 2))"
  "Comp_Place toy node ch = Inr 0"
  "Comp_untypedOne toy = const_Expr True"
  "Comp_SetPlace toy place op one ch = toy_emit"
  "Comp_SetVar toy v op e ch = toy_emit"
  "Comp_ExprsMultipleValues toy nodes n ch = Inr (map toy_Expr nodes)"
  "Comp_varSetValue toy v ch m x = m(length (Bind_Name (Var_Bind v)) := Interface m x)"
  "Type_AssignableTo toy tactual texpected = (tactual = texpected)"
  "Comp_Range toy n labels ch = toy_emit"
  "Comp_Select toy n labels ch = toy_emit"
  "Comp_Send toy n ch = toy_emit"
  "Comp_Switch toy n labels ch = toy_emit"
  "Comp_TypeSwitch toy n labels ch = toy_emit"
  by (simp_all add: toy_def)

lemmas compile_defs =
  Stmt_def Block_def List_def For_def If_stmt_def Block_body_def List_body_def For_body_def
  If_body_def For_pred_def For_loop_def For_post_def For_jump_back_def If_pred_def If_then_def
  If_between_def If_else_def alloc_def set_cell_def pushEnvIfLocalBinds_def pushEnvIfFlag_def
  popEnvIfLocalBinds_def containLocalBinds_def NewComp_def append_stmt_def append_list_def
  truncate_code_def emit_def chain_def code_def Len_def Branch_def Break_def Continue_def
  jumpOut_def HasLabel_def Defer_def Go_def IncDec_def Return_def Return_exprs_def
  returnMultiValues_def arity_error_def AsVar_def misplacedCase_def misplacedFallthrough_def
  toy_simps toy_emit_def listing_def top_def root_Comp_def const_Expr_def var_Expr_def Let_def
  numeral_2_eq_2 numeral_3_eq_3

text \<open>
  To evaluate the compiler on a program with nested statements, the definitions of \<^verbatim>\<open>For\<close>
  and of \<^verbatim>\<open>Block\<close> and \<^verbatim>\<open>List\<close> are unfolded in turn, from the outside.
\<close>

lemmas stage_defs =
  alloc_def set_cell_def pushEnvIfLocalBinds_def pushEnvIfFlag_def popEnvIfLocalBinds_def
  containLocalBinds_def NewComp_def append_stmt_def append_list_def truncate_code_def emit_def
  chain_def code_def Len_def Branch_def Break_def Continue_def jumpOut_def HasLabel_def
  toy_simps toy_emit_def listing_def top_def root_Comp_def Let_def numeral_2_eq_2 numeral_3_eq_3

lemmas for_defs = For_body_def For_pred_def For_loop_def For_post_def For_jump_back_def stage_defs

lemmas block_defs = Block_body_def List_body_def stage_defs

section \<open>Break and continue\<close>

text \<open>
  The resolution of a break or continue, in the words of the specification.
  \<open>target_of slot label c\<close> is the target slot of the frame \<open>c\<close> when \<open>c\<close> has a Loop Info with
  that slot (\<open>Break_slot\<close> or \<open>Continue_slot\<close>) and the statement has no label or its label is
  one of the labels of the Loop Info. \<open>resolve\<close> walks outward through the frames that are
  not the root frame of a function (\<open>scope\<close>), passes the frames without such a target, and
  returns the target slot of the first frame that has one, with the sum of the up-costs
  of the frames it passed. \<open>jump_instr upn ip\<close> is the instruction \<^verbatim>\<open>jumpOut\<close> appends.
\<close>

definition target_of :: "(LoopInfo \<Rightarrow> nat option) \<Rightarrow> string \<Rightarrow> Comp \<Rightarrow> nat option" where
  "target_of slot label c =
     (case Loop c of
        None \<Rightarrow> None
      | Some l \<Rightarrow>
         (case slot l of
            None \<Rightarrow> None
          | Some ip \<Rightarrow> if label = [] \<or> label \<in> set (ThisLabels l) then Some ip else None))"

definition resolve :: "(LoopInfo \<Rightarrow> nat option) \<Rightarrow> string \<Rightarrow> Comp list \<Rightarrow> (nat \<times> nat) option" where
  "resolve slot label ch =
     (let scope = takeWhile (\<lambda>c. Func c = None) ch;
          passed = takeWhile (\<lambda>c. target_of slot label c = None) scope
      in case drop (length passed) scope of
           [] \<Rightarrow> None
         | c # rest \<Rightarrow>
            map_option (\<lambda>ip. (sum_list (map UpCost passed), ip)) (target_of slot label c))"

definition label_of :: "string option \<Rightarrow> string" where
  "label_of node_Label = (case node_Label of None \<Rightarrow> [] | Some name \<Rightarrow> name)"

definition jump_instr :: "nat \<Rightarrow> nat \<Rightarrow> instr" where
  "jump_instr upn ip =
     (if upn = 0 then jumpOut0 ip else if upn = 1 then jumpOut1 ip
      else if upn = 2 then jumpOut2 ip else jumpOutN upn ip)"

lemma resolve_Nil: "resolve slot label [] = None"
  by (simp add: resolve_def)

lemma resolve_func: "Func c = Some f \<Longrightarrow> resolve slot label (c # ch) = None"
  by (simp add: resolve_def)

lemma resolve_hit:
  "Func c = None \<Longrightarrow> target_of slot label c = Some ip \<Longrightarrow> resolve slot label (c # ch) = Some (0, ip)"
  by (simp add: resolve_def)

lemma resolve_pass:
  "Func c = None \<Longrightarrow> target_of slot label c = None \<Longrightarrow>
   resolve slot label (c # ch) = map_option (\<lambda>(n, ip). (UpCost c + n, ip)) (resolve slot label ch)"
  by (auto simp: resolve_def Let_def option.map_comp comp_def split: list.splits)

lemma Break_loop_resolve:
  "Break_loop label ch upn = map_option (\<lambda>(n, ip). (upn + n, ip)) (resolve Break_slot label ch)"
proof (induction ch arbitrary: upn)
  case Nil
  then show ?case by (simp add: resolve_Nil)
next
  case (Cons c ch)
  show ?case
  proof (cases "Func c")
    case (Some f)
    then show ?thesis by (simp add: resolve_func)
  next
    case None
    show ?thesis
    proof (cases "target_of Break_slot label c")
      case (Some ip)
      then show ?thesis using None
        by (auto simp: resolve_hit target_of_def HasLabel_def split: option.splits if_splits)
    next
      case N: None
      then have "Break_loop label (c # ch) upn = Break_loop label ch (upn + UpCost c)"
        using None by (auto simp: target_of_def HasLabel_def split: option.splits if_splits)
      then show ?thesis
        by (simp add: Cons.IH resolve_pass[OF None N] option.map_comp comp_def case_prod_unfold
                      add.assoc)
    qed
  qed
qed

lemma Continue_loop_resolve:
  "Continue_loop label ch upn = map_option (\<lambda>(n, ip). (upn + n, ip)) (resolve Continue_slot label ch)"
proof (induction ch arbitrary: upn)
  case Nil
  then show ?case by (simp add: resolve_Nil)
next
  case (Cons c ch)
  show ?case
  proof (cases "Func c")
    case (Some f)
    then show ?thesis by (simp add: resolve_func)
  next
    case None
    show ?thesis
    proof (cases "target_of Continue_slot label c")
      case (Some ip)
      then show ?thesis using None
        by (auto simp: resolve_hit target_of_def HasLabel_def split: option.splits if_splits)
    next
      case N: None
      then have "Continue_loop label (c # ch) upn = Continue_loop label ch (upn + UpCost c)"
        using None by (auto simp: target_of_def HasLabel_def split: option.splits if_splits)
      then show ?thesis
        by (simp add: Cons.IH resolve_pass[OF None N] option.map_comp comp_def case_prod_unfold
                      add.assoc)
    qed
  qed
qed

lemma Outer_hops_add:
  "Outer_hops (m + n) r = (case Outer_hops m r of None \<Rightarrow> None | Some r1 \<Rightarrow> Outer_hops n r1)"
  by (induction m arbitrary: r) (auto split: list.splits)

lemma exec_jump_instr:
  "exec cs (jump_instr upn ip) r =
     (case Outer_hops upn r of None \<Rightarrow> Panicked r | Some r1 \<Rightarrow> Next (jump_to (cs ! ip) r1))"
proof -
  consider "upn = 0" | "upn = 1" | "upn = 2" | "3 \<le> upn" by linarith
  then show ?thesis
  proof cases
    case 4
    then have u: "upn = 3 + (upn - 3)" by simp
    have "Outer_hops upn r = (case Outer_hops 3 r of None \<Rightarrow> None | Some r1 \<Rightarrow> Outer_hops (upn - 3) r1)"
      by (subst u, rule Outer_hops_add)
    then show ?thesis using 4 by (auto simp: jump_instr_def split: option.splits)
  qed (simp_all add: jump_instr_def)
qed

text \<open>
  How a statement comes to be compiled inside a loop. \<open>nested s0 flags s\<close>: the state \<open>s\<close>
  is reached from the state \<open>s0\<close> by entering scopes with \<^verbatim>\<open>pushEnvIfFlag\<close> (as \<^verbatim>\<open>List\<close>
  and \<^verbatim>\<open>For\<close> do), by compiling statements in the current frame (they extend it), and by
  setting the Loop Info of a scope entered (as \<^verbatim>\<open>For\<close> does); \<open>flags\<close> are the flags of the
  scopes entered and not left, the innermost first.
\<close>

inductive nested :: "cstate \<Rightarrow> bool list \<Rightarrow> cstate \<Rightarrow> bool" for s0 :: cstate where
  here: "nested s0 [] s0"
| scope: "nested s0 flags s \<Longrightarrow> nested s0 (flag # flags) (fst (pushEnvIfFlag nbinds flag s))"
| loop: "nested s0 (flag # flags) s \<Longrightarrow> nested s0 (flag # flags) (s\<lparr>cur := (cur s)\<lparr>Loop := l\<rparr>\<rparr>)"
| stmts: "nested s0 flags s \<Longrightarrow> extends s s' \<Longrightarrow> nested s0 flags s'"

text \<open>
  \<open>entered cs nbinds r\<close>: the thread \<open>r\<close> after it executed the instructions that
  \<^verbatim>\<open>pushEnvIfFlag\<close> emitted for the scopes with the addresses \<open>nbinds\<close>, the innermost first.
\<close>

fun entered :: "nat list \<Rightarrow> nat list \<Rightarrow> rstate \<Rightarrow> rstate" where
  "entered cs [] r = r"
| "entered cs (nbinds # rest) r =
     (case exec cs (pushEnv_stmt nbinds) (entered cs rest r) of
        Next r1 \<Rightarrow> r1
      | Interrupted i r1 \<Rightarrow> r1
      | Panicked r1 \<Rightarrow> r1)"

lemma nested_chain:
  "nested s0 flags s \<Longrightarrow>
   \<exists>fs c. chain s = fs @ c # outer s0
     \<and> map UpCost fs = map (\<lambda>b. if b then 1 else 0) flags
     \<and> (\<forall>f \<in> set fs. Func f = None)
     \<and> Func c = Func (cur s0) \<and> Loop c = Loop (cur s0)"
proof (induction rule: nested.induct)
  case here
  have "chain s0 = [] @ cur s0 # outer s0" by (simp add: chain_def)
  then show ?case by fastforce
next
  case (scope flags s flag nbinds)
  then obtain fs c where h: "chain s = fs @ c # outer s0"
    "map UpCost fs = map (\<lambda>b. if b then 1 else 0) flags" "\<forall>f \<in> set fs. Func f = None"
    "Func c = Func (cur s0)" "Loop c = Loop (cur s0)" by blast
  let ?s' = "fst (pushEnvIfFlag nbinds flag s)"
  let ?c1 = "if flag then cur (append_stmt (pushEnv_stmt nbinds) s) else cur s"
  have c1: "UpCost ?c1 = UpCost (cur s)" "Func ?c1 = Func (cur s)" "Loop ?c1 = Loop (cur s)"
    by (simp_all add: append_stmt_def append_list_def)
  have ch: "chain ?s' = cur ?s' # ?c1 # outer s"
    by (simp add: chain_def pushEnvIfFlag_simps)
  show ?case
  proof (cases fs)
    case Nil
    then have e: "cur s = c" "outer s = outer s0" using h(1) by (simp_all add: chain_def)
    have "chain ?s' = [cur ?s'] @ ?c1 # outer s0" using ch e by simp
    moreover have "map UpCost [cur ?s'] = map (\<lambda>b. if b then 1 else 0) (flag # flags)"
      using h(2) Nil by (simp add: pushEnvIfFlag_simps)
    moreover have "\<forall>f \<in> set [cur ?s']. Func f = None" by (simp add: pushEnvIfFlag_simps)
    moreover have "Func ?c1 = Func (cur s0)" "Loop ?c1 = Loop (cur s0)"
      using c1 e h(4,5) by simp_all
    ultimately show ?thesis by blast
  next
    case (Cons f fs1)
    then have e: "cur s = f" "outer s = fs1 @ c # outer s0" using h(1) by (simp_all add: chain_def)
    have "chain ?s' = (cur ?s' # ?c1 # fs1) @ c # outer s0" using ch e by simp
    moreover have "map UpCost (cur ?s' # ?c1 # fs1) = map (\<lambda>b. if b then 1 else 0) (flag # flags)"
      using h(2) Cons c1 e by (simp add: pushEnvIfFlag_simps)
    moreover have "\<forall>f \<in> set (cur ?s' # ?c1 # fs1). Func f = None"
      using h(3) Cons c1 e by (simp add: pushEnvIfFlag_simps)
    ultimately show ?thesis using h(4,5) by blast
  qed
next
  case (loop flag flags s l)
  then obtain fs c where h: "chain s = fs @ c # outer s0"
    "map UpCost fs = map (\<lambda>b. if b then 1 else 0) (flag # flags)" "\<forall>f \<in> set fs. Func f = None"
    "Func c = Func (cur s0)" "Loop c = Loop (cur s0)" by blast
  from h(2) obtain f fs1 where fs: "fs = f # fs1" by (cases fs) auto
  then have e: "cur s = f" "outer s = fs1 @ c # outer s0" using h(1) by (simp_all add: chain_def)
  let ?s' = "s\<lparr>cur := (cur s)\<lparr>Loop := l\<rparr>\<rparr>"
  have "chain ?s' = ((cur s)\<lparr>Loop := l\<rparr> # fs1) @ c # outer s0" using e by (simp add: chain_def)
  moreover have "map UpCost ((cur s)\<lparr>Loop := l\<rparr> # fs1) = map (\<lambda>b. if b then 1 else 0) (flag # flags)"
    using h(2) fs e by simp
  moreover have "\<forall>f \<in> set ((cur s)\<lparr>Loop := l\<rparr> # fs1). Func f = None"
    using h(3) fs e by simp
  ultimately show ?case using h(4,5) by blast
next
  case (stmts flags s s')
  then obtain fs c where h: "chain s = fs @ c # outer s0"
    "map UpCost fs = map (\<lambda>b. if b then 1 else 0) flags" "\<forall>f \<in> set fs. Func f = None"
    "Func c = Func (cur s0)" "Loop c = Loop (cur s0)" by blast
  from stmts(2) have x: "outer s' = outer s" "UpCost (cur s') = UpCost (cur s)"
    "Func (cur s') = Func (cur s)" "Loop (cur s') = Loop (cur s)"
    by (simp_all add: extends_def grows_def same_frame_def)
  show ?case
  proof (cases fs)
    case Nil
    then have e: "cur s = c" "outer s = outer s0" using h(1) by (simp_all add: chain_def)
    have "chain s' = [] @ cur s' # outer s0" using x e by (simp add: chain_def)
    moreover have "Func (cur s') = Func (cur s0)" "Loop (cur s') = Loop (cur s0)"
      using x e h(4,5) by simp_all
    ultimately show ?thesis using h(2) Nil by fastforce
  next
    case (Cons f fs1)
    then have e: "cur s = f" "outer s = fs1 @ c # outer s0" using h(1) by (simp_all add: chain_def)
    have "chain s' = (cur s' # fs1) @ c # outer s0" using x e by (simp add: chain_def)
    moreover have "map UpCost (cur s' # fs1) = map (\<lambda>b. if b then 1 else 0) flags"
      using h(2) Cons x e by simp
    moreover have "\<forall>f \<in> set (cur s' # fs1). Func f = None"
      using h(3) Cons x e by simp
    ultimately show ?thesis using h(4,5) by blast
  qed
qed

lemma resolve_passes:
  assumes "\<forall>f \<in> set fs. Func f = None \<and> target_of slot label f = None"
    and "Func c = None" and "target_of slot label c = Some ip"
  shows "resolve slot label (fs @ c # rest) = Some (sum_list (map UpCost fs), ip)"
  using assms
proof (induction fs)
  case Nil
  then show ?case by (simp add: resolve_hit)
next
  case (Cons f fs)
  have "resolve slot label ((f # fs) @ c # rest) =
      map_option (\<lambda>(n, ip). (UpCost f + n, ip)) (resolve slot label (fs @ c # rest))"
    using Cons.prems(1) by (simp add: resolve_pass)
  then show ?case using Cons by simp
qed

lemma sum_flags: "sum_list (map (\<lambda>b. if b then 1 else 0) flags) = length (filter id flags)"
  by (induction flags) simp_all

lemma resolve_nested:
  assumes n: "nested s0 flags s" and f: "Func (cur s0) = None"
    and t: "target_of slot label (cur s0) = Some ip"
    and p: "\<forall>c \<in> set (take (length flags) (chain s)). target_of slot label c = None"
  shows "resolve slot label (chain s) = Some (length (filter id flags), ip)"
proof -
  from nested_chain[OF n] obtain fs c where h: "chain s = fs @ c # outer s0"
    "map UpCost fs = map (\<lambda>b. if b then 1 else 0) flags" "\<forall>f \<in> set fs. Func f = None"
    "Func c = Func (cur s0)" "Loop c = Loop (cur s0)" by blast
  have l: "length fs = length flags" using h(2) by (rule map_eq_imp_length_eq)
  have "take (length flags) (chain s) = fs" using h(1) l by simp
  then have a: "\<forall>f \<in> set fs. Func f = None \<and> target_of slot label f = None"
    using p h(3) by simp
  have b: "target_of slot label c = Some ip" using t h(5) by (simp add: target_of_def)
  have "resolve slot label (fs @ c # outer s0) = Some (sum_list (map UpCost fs), ip)"
    using a _ b by (rule resolve_passes) (simp add: h(4) f)
  then show ?thesis by (simp add: h(1,2) sum_flags)
qed

lemma Outer_hops_tg:
  "Outer_hops n (r\<lparr>tg := g\<rparr>) = map_option (\<lambda>r1. r1\<lparr>tg := g\<rparr>) (Outer_hops n r)"
proof (induction n arbitrary: r)
  case 0
  then show ?case by simp
next
  case (Suc n)
  show ?case
  proof (cases "Outer r")
    case Nil
    then show ?thesis by simp
  next
    case (Cons e es)
    have eq: "r\<lparr>tg := g, env := e, Outer := es\<rparr> = (r\<lparr>env := e, Outer := es\<rparr>)\<lparr>tg := g\<rparr>"
      by simp
    have "Outer_hops (Suc n) (r\<lparr>tg := g\<rparr>) = Outer_hops n (r\<lparr>tg := g, env := e, Outer := es\<rparr>)"
      using Cons by simp
    also have "\<dots> = Outer_hops n ((r\<lparr>env := e, Outer := es\<rparr>)\<lparr>tg := g\<rparr>)"
      by (simp only: eq)
    also have "\<dots> = map_option (\<lambda>r1. r1\<lparr>tg := g\<rparr>) (Outer_hops n (r\<lparr>env := e, Outer := es\<rparr>))"
      by (rule Suc.IH)
    also have "\<dots> = map_option (\<lambda>r1. r1\<lparr>tg := g\<rparr>) (Outer_hops (Suc n) r)"
      using Cons by simp
    finally show ?thesis .
  qed
qed

lemma Outer_hops_entered:
  "Outer_hops (length nbs) (entered cs nbs r) = Some (r\<lparr>tg := tg (entered cs nbs r)\<rparr>)"
proof (induction nbs)
  case Nil
  then show ?case by simp
next
  case (Cons nb nbs)
  let ?x = "entered cs nbs r"
  let ?r1 = "entered cs (nb # nbs) r"
  have r1: "?r1 = ?x\<lparr>env := \<lparr>IP = IP (env ?x) + 1, Binds = cs ! nb, IntBinds = cs ! (nb + 1)\<rparr>,
                    Outer := env ?x # Outer ?x, tg := take_from_pool (tg ?x)\<rparr>"
    by (simp add: NewEnv_def jump_to_def Let_def)
  have "Outer_hops (length (nb # nbs)) ?r1 = Outer_hops (length nbs) (?x\<lparr>tg := tg ?r1\<rparr>)"
    by (simp add: r1 del: entered.simps)
  also have "\<dots> = Some (r\<lparr>tg := tg ?r1\<rparr>)"
    by (simp add: Outer_hops_tg Cons.IH)
  finally show ?case .
qed

text \<open>
  C2, as amended. (1, 2) A break (a continue) walks outward through the frames before any
  function-root frame and is compiled to one jump instruction to the break (continue)
  target slot of the nearest frame whose Loop Info matches: it has that slot, and the
  statement has no label or its label is one of the labels of the Loop Info. The up-cost
  of the jump is the sum of the up-costs of the frames passed. When no frame matches,
  compilation fails: with "break label not defined" ("continue label not defined") when a
  label was given, otherwise with "break outside for/switch" for a break and "continue
  outside for" for a continue. (3) When the statement is compiled in a state reached from
  the state \<open>s0\<close> of a loop by entering scopes, setting their Loop Info and compiling
  statements, and no frame of these scopes matches, the jump goes to the slot of the loop
  of \<open>s0\<close> and its up-cost is the number of scopes entered with the flag true. (4) For
  such a scope and for no other, \<^verbatim>\<open>pushEnvIfFlag\<close> emits the instruction that pushes a
  runtime environment, and the frame of the scope has the up-cost 1. (5) When executed,
  the jump leaves exactly as many environments as its up-cost (\<open>Outer_hops upn\<close>) and
  continues at the instruction pointer stored in the slot; (6) leaving as many
  environments as instructions of \<^verbatim>\<open>pushEnvIfFlag\<close> were executed since the loop gives
  back the environment and the outer environments the thread had in the loop.
\<close>

theorem Break_Continue_resolve:
  "Break node_Label s =
     (case resolve Break_slot (label_of node_Label) (chain s) of
        Some (upn, ip) \<Rightarrow> Inr (append_stmt (jump_instr upn ip) s)
      | None \<Rightarrow>
          if label_of node_Label \<noteq> []
          then Inl (Errorf ''break label not defined: %v'' [A_str (label_of node_Label)])
          else Inl (Errorf ''break outside for/switch'' []))
   \<and> Continue node_Label s =
     (case resolve Continue_slot (label_of node_Label) (chain s) of
        Some (upn, ip) \<Rightarrow> Inr (append_stmt (jump_instr upn ip) s)
      | None \<Rightarrow>
          if label_of node_Label \<noteq> []
          then Inl (Errorf ''continue label not defined: %v'' [A_str (label_of node_Label)])
          else Inl (Errorf ''continue outside for'' []))
   \<and> (nested s0 flags s \<and> Func (cur s0) = None \<and> target_of slot label (cur s0) = Some ip
        \<and> (\<forall>c \<in> set (take (length flags) (chain s)). target_of slot label c = None) \<longrightarrow>
      resolve slot label (chain s) = Some (length (filter id flags), ip))
   \<and> code (fst (pushEnvIfFlag nbinds flag s)) = code s @ (if flag then [pushEnv_stmt nbinds] else [])
   \<and> UpCost (cur (fst (pushEnvIfFlag nbinds flag s))) = (if flag then 1 else 0)
   \<and> exec cs (jump_instr upn ip) r =
     (case Outer_hops upn r of None \<Rightarrow> Panicked r | Some r1 \<Rightarrow> Next (jump_to (cs ! ip) r1))
   \<and> Outer_hops (length nbs) (entered cs nbs r) = Some (r\<lparr>tg := tg (entered cs nbs r)\<rparr>)"
proof (intro conjI impI)
  show "Break node_Label s =
     (case resolve Break_slot (label_of node_Label) (chain s) of
        Some (upn, ip) \<Rightarrow> Inr (append_stmt (jump_instr upn ip) s)
      | None \<Rightarrow>
          if label_of node_Label \<noteq> []
          then Inl (Errorf ''break label not defined: %v'' [A_str (label_of node_Label)])
          else Inl (Errorf ''break outside for/switch'' []))"
    by (auto simp: Break_def Break_loop_resolve label_of_def jumpOut_def jump_instr_def[symmetric]
                   Let_def split: option.splits)
  show "Continue node_Label s =
     (case resolve Continue_slot (label_of node_Label) (chain s) of
        Some (upn, ip) \<Rightarrow> Inr (append_stmt (jump_instr upn ip) s)
      | None \<Rightarrow>
          if label_of node_Label \<noteq> []
          then Inl (Errorf ''continue label not defined: %v'' [A_str (label_of node_Label)])
          else Inl (Errorf ''continue outside for'' []))"
    by (auto simp: Continue_def Continue_loop_resolve label_of_def jumpOut_def
                   jump_instr_def[symmetric] Let_def split: option.splits)
  show "code (fst (pushEnvIfFlag nbinds flag s)) = code s @ (if flag then [pushEnv_stmt nbinds] else [])"
    by (rule pushEnvIfFlag_simps)
  show "UpCost (cur (fst (pushEnvIfFlag nbinds flag s))) = (if flag then 1 else 0)"
    by (rule pushEnvIfFlag_simps)
  show "exec cs (jump_instr upn ip) r =
     (case Outer_hops upn r of None \<Rightarrow> Panicked r | Some r1 \<Rightarrow> Next (jump_to (cs ! ip) r1))"
    by (rule exec_jump_instr)
  show "Outer_hops (length nbs) (entered cs nbs r) = Some (r\<lparr>tg := tg (entered cs nbs r)\<rparr>)"
    by (rule Outer_hops_entered)
next
  assume h: "nested s0 flags s \<and> Func (cur s0) = None \<and> target_of slot label (cur s0) = Some ip
        \<and> (\<forall>c \<in> set (take (length flags) (chain s)). target_of slot label c = None)"
  show "resolve slot label (chain s) = Some (length (filter id flags), ip)"
    using h[THEN conjunct1] h[THEN conjunct2, THEN conjunct1]
      h[THEN conjunct2, THEN conjunct2, THEN conjunct1]
      h[THEN conjunct2, THEN conjunct2, THEN conjunct2]
    by (rule resolve_nested)
qed

text \<open>
  C2 as stated gives the message "continue outside for/switch" to a continue without
  label outside every loop; the message of \<^verbatim>\<open>Continue\<close> is "continue outside for".
\<close>

theorem Continue_message_counterexample:
  "Continue None top = Inl (Errorf ''continue outside for'' [])
   \<and> Continue None top \<noteq> Inl (Errorf ''continue outside for/switch'' [])"
  by (simp add: Continue_def chain_def top_def root_Comp_def)

text \<open>
  The witness: \<^verbatim>\<open>L: for { x := 1; for { y := 1; continue L } }\<close>, compiled from the top
  frame. \<open>at_branch\<close> is the state in which the branch statement is compiled: \<open>scope_of\<close>
  is the scope that \<^verbatim>\<open>List\<close> and \<^verbatim>\<open>For\<close> enter (\<^verbatim>\<open>For\<close> for its init statement, here
  without bindings), \<open>loop_of\<close> is the Loop Info that \<^verbatim>\<open>For\<close> sets, and \<open>after\<close> is the
  state after a statement. From the inside, its frames are the inner body (up-cost 1),
  the inner loop (up-cost 0, slots 10 and 11), the outer body (up-cost 1), the outer loop
  labelled L (up-cost 0, slots 3 and 4) and the top frame. \<^verbatim>\<open>continue L\<close> jumps to slot 3
  over 2 environments, a \<^verbatim>\<open>continue\<close> without label to slot 10 over 1 environment. The
  program with \<^verbatim>\<open>break L\<close> runs to completion: it pushes two environments and the jump
  leaves both.
\<close>

definition assign :: "string \<Rightarrow> ast_Stmt" where
  "assign name = AssignStmt [Ident name] DEFINE [BasicLit ''1'']"

definition nested_loops :: "ast_Stmt \<Rightarrow> ast_Stmt" where
  "nested_loops branch =
     LabeledStmt ''L'' (ForStmt EmptyStmt None EmptyStmt
       (Some [assign ''x'', ForStmt EmptyStmt None EmptyStmt (Some [assign ''y'', branch])]))"

definition scope_of :: "bool \<Rightarrow> cstate \<Rightarrow> cstate" where
  "scope_of flag s = (case alloc 2 s of (nbinds, s0) \<Rightarrow> fst (pushEnvIfFlag nbinds flag s0))"

definition loop_of :: "string list \<Rightarrow> cstate \<Rightarrow> cstate" where
  "loop_of labels s = (case For_loop labels None s of (jump, jump_Cond, c6) \<Rightarrow> c6)"

definition after :: "ast_Stmt \<Rightarrow> cstate \<Rightarrow> cstate" where
  "after node s = (case Stmt toy s node of Inl e \<Rightarrow> s | Inr s' \<Rightarrow> s')"

definition outer_loop :: cstate where
  "outer_loop = loop_of [''L''] (scope_of False top)"

definition at_branch :: cstate where
  "at_branch =
     after (assign ''y'') (scope_of True (loop_of [] (scope_of False
       (after (assign ''x'') (scope_of True outer_loop)))))"

definition compiled :: "ast_Stmt \<Rightarrow> cstate" where
  "compiled branch = after (nested_loops branch) top"

lemma nested_scope_of: "nested s0 flags s \<Longrightarrow> nested s0 (flag # flags) (scope_of flag s)"
proof -
  assume n: "nested s0 flags s"
  have e: "scope_of flag s = fst (pushEnvIfFlag (fst (alloc 2 s)) flag (snd (alloc 2 s)))"
    by (simp add: scope_of_def case_prod_unfold)
  show ?thesis
    unfolding e by (rule nested.scope[OF nested.stmts[OF n extends_alloc]])
qed

lemma nested_after: "nested s0 flags s \<Longrightarrow> nested s0 flags (after node s)"
proof -
  assume n: "nested s0 flags s"
  show ?thesis
  proof (cases "Stmt toy s node")
    case (Inl e)
    then show ?thesis using n by (simp add: after_def)
  next
    case (Inr s')
    then have "extends s s'" by (rule Stmt_extends)
    then have "nested s0 flags s'" by (rule nested.stmts[OF n])
    then show ?thesis using Inr by (simp add: after_def)
  qed
qed

lemma nested_loop_of:
  "nested s0 (flag # flags) s \<Longrightarrow> nested s0 (flag # flags) (loop_of labels s)"
proof -
  assume n: "nested s0 (flag # flags) s"
  let ?c3 = "snd (alloc 3 s)"
  let ?l = "Some \<lparr>Continue_slot = Some (fst (alloc 3 s) + 1),
                   Break_slot = Some (fst (alloc 3 s) + 2), ThisLabels = sort labels\<rparr>"
  let ?c4 = "?c3\<lparr>cur := (cur ?c3)\<lparr>Loop := ?l\<rparr>\<rparr>"
  have e: "loop_of labels s = set_cell (fst (alloc 3 s)) (Len ?c4) ?c4"
    by (simp add: loop_of_def For_loop_def Let_def case_prod_unfold)
  have "nested s0 (flag # flags) ?c4"
    by (rule nested.loop[OF nested.stmts[OF n extends_alloc]])
  then show ?thesis
    unfolding e by (rule nested.stmts[OF _ extends_set_cell])
qed

lemma chain_at_branch:
  "map (\<lambda>c. (UpCost c, Loop c, Func c)) (chain at_branch) =
     [(1, None, None),
      (0, Some \<lparr>Continue_slot = Some 10, Break_slot = Some 11, ThisLabels = []\<rparr>, None),
      (1, None, None),
      (0, Some \<lparr>Continue_slot = Some 3, Break_slot = Some 4, ThisLabels = [''L'']\<rparr>, None),
      (1, None, None)]"
  by (simp add: at_branch_def outer_loop_def scope_of_def loop_of_def after_def assign_def
        Stmt_def For_loop_def stage_defs)

lemma code_at_branch:
  "map mnemonic (code at_branch) =
     [(''pushEnv'', [5]), (''collab'', []), (''pushEnv'', [12]), (''collab'', [])]"
  by (simp add: at_branch_def outer_loop_def scope_of_def loop_of_def after_def assign_def
        Stmt_def For_loop_def stage_defs)

lemmas at_branch_defs =
  at_branch_def outer_loop_def scope_of_def loop_of_def after_def assign_def Stmt_def For_loop_def
  stage_defs

theorem Break_Continue_resolve_witness:
  "nested outer_loop [True, False, True] at_branch
   \<and> target_of Continue_slot ''L'' (cur outer_loop) = Some 3
   \<and> target_of Break_slot ''L'' (cur outer_loop) = Some 4
   \<and> Stmt toy at_branch (BranchStmt CONTINUE (Some ''L'')) = Inr (append_stmt (jumpOut2 3) at_branch)
   \<and> Stmt toy at_branch (BranchStmt BREAK (Some ''L'')) = Inr (append_stmt (jumpOut2 4) at_branch)
   \<and> Stmt toy at_branch (BranchStmt CONTINUE None) = Inr (append_stmt (jumpOut1 10) at_branch)
   \<and> Stmt toy at_branch (BranchStmt BREAK None) = Inr (append_stmt (jumpOut1 11) at_branch)
   \<and> Stmt toy at_branch (BranchStmt BREAK (Some ''M'')) =
       Inl (Errorf ''break label not defined: %v'' [A_str ''M''])
   \<and> Stmt toy top (BranchStmt BREAK None) = Inl (Errorf ''break outside for/switch'' [])
   \<and> Stmt toy top (BranchStmt CONTINUE None) = Inl (Errorf ''continue outside for'' [])
   \<and> map mnemonic (code (append_stmt (jumpOut2 3) at_branch)) =
       [(''pushEnv'', [5]), (''collab'', []), (''pushEnv'', [12]), (''collab'', []),
        (''jumpOut'', [2, 3])]
   \<and> listing (Stmt toy top (nested_loops (BranchStmt CONTINUE (Some ''L'')))) =
       Inr ([(''pushEnv'', [5]), (''collab'', []), (''pushEnv'', [12]), (''collab'', []),
             (''jumpOut'', [2, 3]), (''popEnv'', []), (''for-jump'', [9]), (''popEnv'', []),
             (''for-jump'', [2])],
            [0, 0, 0, 8, 9, 1, 0, 0, 0, 2, 6, 7, 1, 0])
   \<and> listing (Stmt toy top (nested_loops (BranchStmt BREAK (Some ''L'')))) =
       Inr ([(''pushEnv'', [5]), (''collab'', []), (''pushEnv'', [12]), (''collab'', []),
             (''jumpOut'', [2, 4]), (''popEnv'', []), (''for-jump'', [9]), (''popEnv'', []),
             (''for-jump'', [2])],
            [0, 0, 0, 8, 9, 1, 0, 0, 0, 2, 6, 7, 1, 0])
   \<and> map mnemonic (fst (run 6 (code (compiled (BranchStmt BREAK (Some ''L''))))
                             (cells (compiled (BranchStmt BREAK (Some ''L''))))
                             (thread0 (\<lambda>a. 0)))) =
       [(''pushEnv'', [5]), (''collab'', []), (''pushEnv'', [12]), (''collab'', []),
        (''jumpOut'', [2, 4])]
   \<and> snd (run 6 (code (compiled (BranchStmt BREAK (Some ''L''))))
                 (cells (compiled (BranchStmt BREAK (Some ''L''))))
                 (thread0 (\<lambda>a. 0))) =
       Completed ((thread0 (\<lambda>a. 0))\<lparr>env := \<lparr>IP = 9, Binds = 0, IntBinds = 0\<rparr>\<rparr>)
   \<and> exec [0, 0, 0, 8, 9, 1, 0, 0, 0, 2, 6, 7, 1, 0] (jumpOut2 4)
         (entered [0, 0, 0, 8, 9, 1, 0, 0, 0, 2, 6, 7, 1, 0] [12, 5] (thread0 (\<lambda>a. 0))) =
       Next ((thread0 (\<lambda>a. 0))\<lparr>env := \<lparr>IP = 9, Binds = 0, IntBinds = 0\<rparr>\<rparr>)"
proof -
  let ?cs = "[0, 0, 0, 8, 9, 1, 0, 0, 0, 2, 6, 7, 1, 0] :: nat list"
  have n: "nested outer_loop [True, False, True] at_branch"
    unfolding at_branch_def
    by (intro nested_after nested_scope_of nested_loop_of nested.here)
  have f: "Func (cur outer_loop) = None"
    by (simp add: outer_loop_def scope_of_def loop_of_def For_loop_def stage_defs)
  have tc: "target_of Continue_slot ''L'' (cur outer_loop) = Some 3"
    by (simp add: target_of_def outer_loop_def scope_of_def loop_of_def For_loop_def stage_defs)
  have tb: "target_of Break_slot ''L'' (cur outer_loop) = Some 4"
    by (simp add: target_of_def outer_loop_def scope_of_def loop_of_def For_loop_def stage_defs)
  have pc: "\<forall>c \<in> set (take (length [True, False, True]) (chain at_branch)).
              target_of Continue_slot ''L'' c = None"
    by (simp add: target_of_def at_branch_defs)
  have pb: "\<forall>c \<in> set (take (length [True, False, True]) (chain at_branch)).
              target_of Break_slot ''L'' c = None"
    by (simp add: target_of_def at_branch_defs)
  note t = Break_Continue_resolve[where s = at_branch and ?s0.0 = outer_loop
      and flags = "[True, False, True]"]
  have rc: "resolve Continue_slot ''L'' (chain at_branch) = Some (2, 3)"
    using t[where slot = Continue_slot and label = "''L''" and ip = 3] n f tc pc by simp
  have rb: "resolve Break_slot ''L'' (chain at_branch) = Some (2, 4)"
    using t[where slot = Break_slot and label = "''L''" and ip = 4] n f tb pb by simp
  have r: "resolve Continue_slot [] (chain at_branch) = Some (1, 10)"
    "resolve Break_slot [] (chain at_branch) = Some (1, 11)"
    "resolve Break_slot ''M'' (chain at_branch) = None"
    "resolve Break_slot [] (chain top) = None"
    "resolve Continue_slot [] (chain top) = None"
    by (simp_all add: resolve_def target_of_def at_branch_defs)
  have 1: "Stmt toy at_branch (BranchStmt CONTINUE (Some ''L'')) = Inr (append_stmt (jumpOut2 3) at_branch)"
    using t[where node_Label = "Some ''L''"] rc
    by (simp add: Stmt_def Branch_def label_of_def jump_instr_def)
  have 2: "Stmt toy at_branch (BranchStmt BREAK (Some ''L'')) = Inr (append_stmt (jumpOut2 4) at_branch)"
    using t[where node_Label = "Some ''L''"] rb
    by (simp add: Stmt_def Branch_def label_of_def jump_instr_def)
  have 3: "Stmt toy at_branch (BranchStmt CONTINUE None) = Inr (append_stmt (jumpOut1 10) at_branch)"
    "Stmt toy at_branch (BranchStmt BREAK None) = Inr (append_stmt (jumpOut1 11) at_branch)"
    using t[where node_Label = None] r(1,2)
    by (simp_all add: Stmt_def Branch_def label_of_def jump_instr_def)
  have 4: "Stmt toy at_branch (BranchStmt BREAK (Some ''M'')) =
       Inl (Errorf ''break label not defined: %v'' [A_str ''M''])"
    using t[where node_Label = "Some ''M''"] r(3)
    by (simp add: Stmt_def Branch_def label_of_def)
  have 5: "Stmt toy top (BranchStmt BREAK None) = Inl (Errorf ''break outside for/switch'' [])"
    "Stmt toy top (BranchStmt CONTINUE None) = Inl (Errorf ''continue outside for'' [])"
    using Break_Continue_resolve[where s = top and node_Label = None] r(4,5)
    by (simp_all add: Stmt_def Branch_def label_of_def)
  have 6: "map mnemonic (code (append_stmt (jumpOut2 3) at_branch)) =
       [(''pushEnv'', [5]), (''collab'', []), (''pushEnv'', [12]), (''collab'', []),
        (''jumpOut'', [2, 3])]"
    using code_at_branch by (simp add: append_stmt_simps)
  have 7: "listing (Stmt toy top (nested_loops (BranchStmt CONTINUE (Some ''L'')))) =
       Inr ([(''pushEnv'', [5]), (''collab'', []), (''pushEnv'', [12]), (''collab'', []),
             (''jumpOut'', [2, 3]), (''popEnv'', []), (''for-jump'', [9]), (''popEnv'', []),
             (''for-jump'', [2])],
            ?cs)"
    by (simp add: nested_loops_def assign_def Stmt_def for_defs
              cong: prod.case_cong_weak let_weak_cong;
        (simp add: block_defs cong: prod.case_cong_weak let_weak_cong)?;
        (simp add: for_defs cong: prod.case_cong_weak let_weak_cong)?;
        (simp add: block_defs cong: prod.case_cong_weak let_weak_cong)?;
        (simp add: for_defs cong: prod.case_cong_weak let_weak_cong)?;
        (simp add: block_defs cong: prod.case_cong_weak let_weak_cong)?;
        (simp add: for_defs cong: prod.case_cong_weak let_weak_cong)?)
  have 8: "listing (Stmt toy top (nested_loops (BranchStmt BREAK (Some ''L'')))) =
       Inr ([(''pushEnv'', [5]), (''collab'', []), (''pushEnv'', [12]), (''collab'', []),
             (''jumpOut'', [2, 4]), (''popEnv'', []), (''for-jump'', [9]), (''popEnv'', []),
             (''for-jump'', [2])],
            ?cs)"
    by (simp add: nested_loops_def assign_def Stmt_def for_defs
              cong: prod.case_cong_weak let_weak_cong;
        (simp add: block_defs cong: prod.case_cong_weak let_weak_cong)?;
        (simp add: for_defs cong: prod.case_cong_weak let_weak_cong)?;
        (simp add: block_defs cong: prod.case_cong_weak let_weak_cong)?;
        (simp add: for_defs cong: prod.case_cong_weak let_weak_cong)?;
        (simp add: block_defs cong: prod.case_cong_weak let_weak_cong)?;
        (simp add: for_defs cong: prod.case_cong_weak let_weak_cong)?)
  have c: "compiled (BranchStmt BREAK (Some ''L'')) =
      \<lparr>cur = root_Comp\<lparr>Code := \<lparr>Code_List =
               [pushEnv_stmt 5, Collab_stmt (\<lambda>m. Some ((), m)), pushEnv_stmt 12,
                Collab_stmt (\<lambda>m. Some ((), m)), jumpOut2 4, popEnv, For_jump 9, popEnv, For_jump 2],
               WithDefers = False\<rparr>\<rparr>,
        outer = [], cells = ?cs\<rparr>"
    by (simp add: compiled_def after_def nested_loops_def assign_def Stmt_def for_defs
              cong: prod.case_cong_weak let_weak_cong;
        (simp add: block_defs cong: prod.case_cong_weak let_weak_cong)?;
        (simp add: for_defs cong: prod.case_cong_weak let_weak_cong)?;
        (simp add: block_defs cong: prod.case_cong_weak let_weak_cong)?;
        (simp add: for_defs cong: prod.case_cong_weak let_weak_cong)?;
        (simp add: block_defs cong: prod.case_cong_weak let_weak_cong)?;
        (simp add: for_defs cong: prod.case_cong_weak let_weak_cong)?)
  have 9: "run 6 (code (compiled (BranchStmt BREAK (Some ''L''))))
                 (cells (compiled (BranchStmt BREAK (Some ''L'')))) (thread0 (\<lambda>a. 0)) =
      ([pushEnv_stmt 5, Collab_stmt (\<lambda>m. Some ((), m)), pushEnv_stmt 12,
        Collab_stmt (\<lambda>m. Some ((), m)), jumpOut2 4],
       Completed ((thread0 (\<lambda>a. 0))\<lparr>env := \<lparr>IP = 9, Binds = 0, IntBinds = 0\<rparr>\<rparr>))"
    unfolding c
    by (simp add: code_def root_Comp_def thread0_def tg0_def eval_nat_numeral NewEnv_def
          take_from_pool_def jump_to_def Let_def)
  have 10: "exec ?cs (jumpOut2 4) (entered ?cs [12, 5] (thread0 (\<lambda>a. 0))) =
       Next ((thread0 (\<lambda>a. 0))\<lparr>env := \<lparr>IP = 9, Binds = 0, IntBinds = 0\<rparr>\<rparr>)"
    using t[where cs = ?cs and upn = 2 and ip = 4 and nbs = "[12, 5]" and r = "thread0 (\<lambda>a. 0)"]
    by (simp add: jump_instr_def thread0_def tg0_def NewEnv_def take_from_pool_def jump_to_def
          Let_def eval_nat_numeral)
  show ?thesis
    using n tc tb 1 2 3 4 5 6 7 8 10 by (simp add: 9)
qed

section \<open>Return\<close>

lemma Return_loop_None: "Return_loop ch upn = None \<longleftrightarrow> (\<forall>c \<in> set ch. Func c = None)"
  by (induction ch arbitrary: upn) (auto split: option.splits)

lemma Return_loop_Some:
  "Return_loop ch upn = Some (cinfo, n) \<longleftrightarrow>
     (\<exists>pre cf post. ch = pre @ cf # post \<and> (\<forall>c \<in> set pre. Func c = None)
        \<and> Func cf = Some cinfo \<and> n = upn + sum_list (map UpCost pre))"
proof (induction ch arbitrary: upn)
  case Nil
  then show ?case by simp
next
  case (Cons c ch)
  show ?case
  proof (cases "Func c")
    case None
    have "(\<exists>pre cf post. c # ch = pre @ cf # post \<and> (\<forall>c \<in> set pre. Func c = None)
              \<and> Func cf = Some cinfo \<and> n = upn + sum_list (map UpCost pre))
        \<longleftrightarrow> (\<exists>pre cf post. ch = pre @ cf # post \<and> (\<forall>c \<in> set pre. Func c = None)
              \<and> Func cf = Some cinfo \<and> n = upn + UpCost c + sum_list (map UpCost pre))"
      (is "?L \<longleftrightarrow> ?R")
    proof
      assume ?L
      then obtain pre cf post where e: "c # ch = pre @ cf # post" "\<forall>c \<in> set pre. Func c = None"
        "Func cf = Some cinfo" "n = upn + sum_list (map UpCost pre)" by blast
      from e(1,3) None obtain pre' where "pre = c # pre'" by (cases pre) auto
      with e show ?R by auto
    next
      assume ?R
      then obtain pre cf post where e: "ch = pre @ cf # post" "\<forall>c \<in> set pre. Func c = None"
        "Func cf = Some cinfo" "n = upn + UpCost c + sum_list (map UpCost pre)" by blast
      then have "c # ch = (c # pre) @ cf # post \<and> (\<forall>x \<in> set (c # pre). Func x = None)
         \<and> Func cf = Some cinfo \<and> n = upn + sum_list (map UpCost (c # pre))"
        using None by simp
      then show ?L by blast
    qed
    then show ?thesis using None Cons.IH[of "upn + UpCost c"] by simp
  next
    case (Some f)
    have "(\<exists>pre cf post. c # ch = pre @ cf # post \<and> (\<forall>c \<in> set pre. Func c = None)
              \<and> Func cf = Some cinfo \<and> n = upn + sum_list (map UpCost pre))
        \<longleftrightarrow> (f = cinfo \<and> n = upn)" (is "?L \<longleftrightarrow> ?R")
    proof
      assume ?L
      then obtain pre cf post where e: "c # ch = pre @ cf # post" "\<forall>c \<in> set pre. Func c = None"
        "Func cf = Some cinfo" "n = upn + sum_list (map UpCost pre)" by blast
      have "pre = []" using e(1,2) Some by (cases pre) auto
      with e Some show ?R by auto
    next
      assume ?R
      then have "c # ch = [] @ c # ch \<and> (\<forall>x \<in> set []. Func x = None)
         \<and> Func c = Some cinfo \<and> n = upn + sum_list (map UpCost [])"
        using Some by simp
      then show ?L by blast
    qed
    then show ?thesis using Some by auto
  qed
qed

lemma Return_exprs_nil: "Return_exprs co binds upn [] 0 s = Inr (append_stmt stmtReturn s)"
  by (simp add: Return_exprs_def)

text \<open>
  C3, as amended. (1) When no frame of the chain is the root frame of a function, a return
  statement fails with "return outside function". (2) Otherwise let \<open>cinfo\<close> be the function
  info of the nearest such frame. A return with no expression is legal exactly when the
  function has no results or its results are named; then the only instruction added is
  the return-signal instruction \<open>stmtReturn\<close> (no assignment). With unnamed results, one or
  more, it fails with "expecting N expressions, found 0". (3) A return whose number of
  expressions is neither 0, nor 1, nor the number of results fails with
  "return: expecting N expressions, found M".
\<close>

theorem Return_arity:
  "((\<forall>c \<in> set (chain s). Func c = None) \<longrightarrow>
      Return co exprs s = Inl (Errorf ''return outside function'' []))
   \<and> (chain s = pre @ cf # post \<and> (\<forall>c \<in> set pre. Func c = None) \<and> Func cf = Some cinfo \<longrightarrow>
       (exprs = [] \<and> (Results cinfo = [] \<or> NamedResults cinfo) \<longrightarrow>
          Return co exprs s = Inr (append_stmt stmtReturn s))
     \<and> (exprs = [] \<and> Results cinfo \<noteq> [] \<and> \<not> NamedResults cinfo \<longrightarrow>
          Return co exprs s =
            Inl (Errorf ''return: expecting %d expressions, found %d: %v''
                   [A_int (int (length (Results cinfo))), A_int 0, A_node]))
     \<and> (length exprs \<noteq> 0 \<and> length exprs \<noteq> 1 \<and> length exprs \<noteq> length (Results cinfo) \<longrightarrow>
          Return co exprs s =
            Inl (Errorf ''return: expecting %d expressions, found %d: %v''
                   [A_int (int (length (Results cinfo))), A_int (int (length exprs)), A_node])))"
proof (intro conjI impI)
  assume "\<forall>c \<in> set (chain s). Func c = None"
  then have "Return_loop (chain s) 0 = None" by (simp add: Return_loop_None)
  then show "Return co exprs s = Inl (Errorf ''return outside function'' [])"
    by (simp add: Return_def)
next
  assume h: "chain s = pre @ cf # post \<and> (\<forall>c \<in> set pre. Func c = None) \<and> Func cf = Some cinfo"
  then have l: "Return_loop (chain s) 0 = Some (cinfo, sum_list (map UpCost pre))"
    unfolding Return_loop_Some by auto
  {
    assume "exprs = [] \<and> (Results cinfo = [] \<or> NamedResults cinfo)"
    then show "Return co exprs s = Inr (append_stmt stmtReturn s)"
      using l by (auto simp: Return_def Let_def Return_exprs_nil)
  }
  {
    assume "exprs = [] \<and> Results cinfo \<noteq> [] \<and> \<not> NamedResults cinfo"
    then show "Return co exprs s =
            Inl (Errorf ''return: expecting %d expressions, found %d: %v''
                   [A_int (int (length (Results cinfo))), A_int 0, A_node])"
      using l by (auto simp: Return_def Let_def arity_error_def)
  }
  {
    assume "length exprs \<noteq> 0 \<and> length exprs \<noteq> 1 \<and> length exprs \<noteq> length (Results cinfo)"
    then show "Return co exprs s =
            Inl (Errorf ''return: expecting %d expressions, found %d: %v''
                   [A_int (int (length (Results cinfo))), A_int (int (length exprs)), A_node])"
      using l by (auto simp: Return_def Let_def arity_error_def)
  }
qed

text \<open>
  C3 as stated says that a return with no expression is legal exactly when the results
  are named. In a function without results, whose results are not named, it is legal:
  \<^verbatim>\<open>case n\<close> comes first in the switch of \<^verbatim>\<open>Return\<close>, and with \<^verbatim>\<open>n = 0\<close> it takes
  \<^verbatim>\<open>len(resultExprs) = 0\<close>.
\<close>

theorem Return_naked_unnamed_counterexample:
  "Func (cur (in_func [] False)) = Some \<lparr>Results = [], NamedResults = False\<rparr>
   \<and> Return toy [] (in_func [] False) = Inr (append_stmt stmtReturn (in_func [] False))"
  by (simp add: in_func_def Return_def Return_exprs_def chain_def top_def root_Comp_def)

theorem Return_arity_witness:
  "Return toy [] top = Inl (Errorf ''return outside function'' [])
   \<and> Return toy [] (in_func two_ints True) = Inr (append_stmt stmtReturn (in_func two_ints True))
   \<and> Return toy [] (in_func two_ints False) =
       Inl (Errorf ''return: expecting %d expressions, found %d: %v'' [A_int 2, A_int 0, A_node])
   \<and> Return toy [BasicLit ''1'', BasicLit ''2'', BasicLit ''3''] (in_func two_ints True) =
       Inl (Errorf ''return: expecting %d expressions, found %d: %v'' [A_int 2, A_int 3, A_node])"
proof -
  have c: "\<And>n. chain (in_func two_ints n) = [] @ cur (in_func two_ints n) # []
       \<and> (\<forall>c \<in> set []. Func c = None)
       \<and> Func (cur (in_func two_ints n)) = Some \<lparr>Results = two_ints, NamedResults = n\<rparr>"
    by (simp add: chain_def in_func_def top_def)
  have t: "\<forall>c \<in> set (chain top). Func c = None"
    by (simp add: chain_def top_def root_Comp_def)
  have 1: "Return toy [] top = Inl (Errorf ''return outside function'' [])"
    using Return_arity[where s = top and co = toy and exprs = "[]"] t by blast
  have 2: "Return toy [] (in_func two_ints True) = Inr (append_stmt stmtReturn (in_func two_ints True))"
    using Return_arity[where s = "in_func two_ints True" and pre = "[]"
                          and cf = "cur (in_func two_ints True)" and post = "[]"
                          and cinfo = "\<lparr>Results = two_ints, NamedResults = True\<rparr>"
                          and exprs = "[]" and co = toy] c[of True]
    by simp
  have 3: "Return toy [] (in_func two_ints False) =
       Inl (Errorf ''return: expecting %d expressions, found %d: %v'' [A_int 2, A_int 0, A_node])"
    using Return_arity[where s = "in_func two_ints False" and pre = "[]"
                          and cf = "cur (in_func two_ints False)" and post = "[]"
                          and cinfo = "\<lparr>Results = two_ints, NamedResults = False\<rparr>"
                          and exprs = "[]" and co = toy] c[of False]
    by (simp add: two_ints_def)
  have 4: "Return toy [BasicLit ''1'', BasicLit ''2'', BasicLit ''3''] (in_func two_ints True) =
       Inl (Errorf ''return: expecting %d expressions, found %d: %v'' [A_int 2, A_int 3, A_node])"
    using Return_arity[where s = "in_func two_ints True" and pre = "[]"
                          and cf = "cur (in_func two_ints True)" and post = "[]"
                          and cinfo = "\<lparr>Results = two_ints, NamedResults = True\<rparr>"
                          and exprs = "[BasicLit ''1'', BasicLit ''2'', BasicLit ''3'']"
                          and co = toy] c[of True]
    by (simp add: two_ints_def)
  show ?thesis using 1 2 3 4 by blast
qed

section \<open>Return of a call with several values\<close>

text \<open>
  The result \<open>Inl err\<close> of \<open>returnMultiValues\<close> says that it panicked with \<open>err\<close>, not what the
  frame \<^verbatim>\<open>c\<close> held at that moment. \<open>returnMultiValues_state\<close> is the same function with
  the frame: the state of \<^verbatim>\<open>c\<close> when \<^verbatim>\<open>returnMultiValues\<close> returns or panics, and the
  error of the panic if any. \<^verbatim>\<open>c.Append\<close> is its last statement, after every call of
  \<^verbatim>\<open>c.Errorf\<close>.
\<close>

definition returnMultiValues_state ::
  "collab \<Rightarrow> Bind list \<Rightarrow> nat \<Rightarrow> ast_Expr list \<Rightarrow> cstate \<Rightarrow> cstate \<times> error option" where
  "returnMultiValues_state co resultBinds upn exprs s =
     (let n = length resultBinds
      in case Comp_ExprsMultipleValues co exprs n (chain s) of
           Inl err \<Rightarrow> (s, Some err)
         | Inr [] \<Rightarrow> (s, Some (RuntimePanic ''index out of range''))
         | Inr (e # es) \<Rightarrow>
             (let fn = AsXV e
              in case returnMultiValues_loop co (chain s) e resultBinds upn [0..<n] of
                   Inl err \<Rightarrow> (s, Some err)
                 | Inr assigns \<Rightarrow> (append_stmt (returnMultiValues_stmt fn assigns) s, None)))"

definition outcome_of :: "cstate \<times> error option \<Rightarrow> error + cstate" where
  "outcome_of p = (case p of (s, None) \<Rightarrow> Inr s | (s, Some err) \<Rightarrow> Inl err)"

lemma returnMultiValues_outcome:
  "returnMultiValues co binds upn exprs s = outcome_of (returnMultiValues_state co binds upn exprs s)"
  by (simp add: returnMultiValues_def returnMultiValues_state_def outcome_of_def Let_def
           split: sum.splits list.splits)

lemma returnMultiValues_loop_ok:
  assumes "\<forall>i \<in> set idx. i < length binds \<and> Type_AssignableTo co (Out e i) (Bind_Type (binds ! i))"
  shows "returnMultiValues_loop co ch e binds upn idx =
           Inr (map (\<lambda>i. Comp_varSetValue co (AsVar (binds ! i) upn) ch) idx)"
  using assms by (induction idx) (simp_all add: Let_def)

lemma returnMultiValues_loop_first:
  assumes "\<forall>j \<in> set front. j < length binds \<and> Type_AssignableTo co (Out e j) (Bind_Type (binds ! j))"
    and "i < length binds" and "\<not> Type_AssignableTo co (Out e i) (Bind_Type (binds ! i))"
  shows "returnMultiValues_loop co ch e binds upn (front @ i # rest) =
           Inl (Errorf ''incompatible types in assignment: %v = %v''
                  [A_str (Bind_Type (binds ! i)), A_str (Out e i)])"
  using assms by (induction front) (simp_all add: Let_def)

lemma first_mismatch:
  fixes n :: nat
  assumes "\<exists>i < n. \<not> P i"
  shows "\<exists>i < n. \<not> P i \<and> (\<forall>j < i. P j)"
proof -
  from assms obtain k where k: "k < n" "\<not> P k" by blast
  define i where "i = (LEAST i. \<not> P i)"
  have a: "\<not> P i" unfolding i_def by (rule LeastI[of "\<lambda>i. \<not> P i" k]) (rule k(2))
  have b: "i \<le> k" unfolding i_def by (rule Least_le[of "\<lambda>i. \<not> P i" k]) (rule k(2))
  have c: "\<forall>j < i. P j"
  proof (intro allI impI)
    fix j assume "j < i"
    then show "P j" unfolding i_def using not_less_Least[of j "\<lambda>i. \<not> P i"] by simp
  qed
  have "i < n" using b k(1) by simp
  then show ?thesis using a c by blast
qed

lemma assign_loop_all:
  "length assigns \<le> length vals \<Longrightarrow>
   assign_loop assigns vals m = Inr (fold (\<lambda>(assign, v) m. assign m v) (zip assigns vals) m)"
proof (induction assigns arbitrary: vals m)
  case Nil
  then show ?case by simp
next
  case (Cons a assigns)
  then obtain v vs where "vals = v # vs" by (cases vals) auto
  then show ?case using Cons by simp
qed

lemma Return_loop_passes:
  "\<forall>c \<in> set front. Func c = None \<Longrightarrow> Func cf = Some cinfo \<Longrightarrow>
   Return_loop (front @ cf # behind) upn = Some (cinfo, upn + sum_list (map UpCost front))"
  by (induction front arbitrary: upn) simp_all

text \<open>
  C4. Let the statement be \<^verbatim>\<open>return x\<close> with the one expression \<open>x\<close>, compiled in a frame
  whose nearest enclosing function (past the frames \<open>front\<close>, none of them a function root)
  has the result bindings \<open>Results cinfo\<close>, more than one. (1) The dispatcher hands it to
  \<^verbatim>\<open>returnMultiValues\<close> with these bindings and with the up-costs of the frames passed as
  \<open>upn\<close>, in the same state. Let then the collaborator (\<^verbatim>\<open>ExprsMultipleValues\<close>) compile
  \<open>x\<close> as the call \<open>e\<close> with as many values as there are bindings. (2) When the type of every
  value is assignable to the type of its result binding, one instruction is appended, made
  of the call and of one assignment for each binding in order. (3) When the type of some
  value is not assignable, compilation fails with "incompatible types in assignment" for
  the first such value, and the frame is at that moment as it was before the statement:
  no instruction was appended. (4) When the instruction executes and the call panics, no
  binding was assigned: the state is unchanged. (5) When the call returns its values
  \<open>vals\<close>, at least one for each binding, the instruction assigns them in order to the
  bindings, starting from the store \<open>m1\<close> the call left, sets the signal to \<open>SigReturn\<close> and
  transfers to the interrupt instruction of the thread: every value was produced before
  the first assignment.
\<close>

theorem Return_call_checks_then_assigns:
  "(chain s = front @ cf # behind \<and> (\<forall>c \<in> set front. Func c = None) \<and> Func cf = Some cinfo
      \<and> 1 < length (Results cinfo) \<longrightarrow>
      Stmt co s (ReturnStmt [x]) =
        outcome_of (returnMultiValues_state co (Results cinfo) (sum_list (map UpCost front)) [x] s)
      \<and> (Comp_ExprsMultipleValues co [x] (length (Results cinfo)) (chain s) = Inr (e # es) \<longrightarrow>
          ((\<forall>i < length (Results cinfo).
               Type_AssignableTo co (Out e i) (Bind_Type (Results cinfo ! i))) \<longrightarrow>
             Stmt co s (ReturnStmt [x]) =
               Inr (append_stmt
                      (returnMultiValues_stmt (AsXV e)
                         (map (\<lambda>b. Comp_varSetValue co (AsVar b (sum_list (map UpCost front))) (chain s))
                            (Results cinfo))) s))
        \<and> ((\<exists>i < length (Results cinfo).
               \<not> Type_AssignableTo co (Out e i) (Bind_Type (Results cinfo ! i))) \<longrightarrow>
             (\<exists>i < length (Results cinfo).
                 \<not> Type_AssignableTo co (Out e i) (Bind_Type (Results cinfo ! i))
               \<and> (\<forall>j < i. Type_AssignableTo co (Out e j) (Bind_Type (Results cinfo ! j)))
               \<and> Stmt co s (ReturnStmt [x]) =
                   Inl (Errorf ''incompatible types in assignment: %v = %v''
                          [A_str (Bind_Type (Results cinfo ! i)), A_str (Out e i)])
               \<and> returnMultiValues_state co (Results cinfo) (sum_list (map UpCost front)) [x] s =
                   (s, Some (Errorf ''incompatible types in assignment: %v = %v''
                               [A_str (Bind_Type (Results cinfo ! i)), A_str (Out e i)]))))))
   \<and> (fn (vars r) = None \<longrightarrow> exec cs (returnMultiValues_stmt fn assigns) r = Panicked r)
   \<and> (fn (vars r) = Some (vals, m1) \<and> length assigns \<le> length vals \<longrightarrow>
        exec cs (returnMultiValues_stmt fn assigns) r =
          Interrupted (Interrupt (tg r))
            (r\<lparr>vars := fold (\<lambda>(assign, v) m. assign m v) (zip assigns vals) m1,
               tg := (tg r)\<lparr>Signal := SigReturn\<rparr>\<rparr>))"
proof -
  let ?binds = "Results cinfo"
  let ?upn = "sum_list (map UpCost front)"
  let ?A = "\<lambda>i. Type_AssignableTo co (Out e i) (Bind_Type (?binds ! i))"
  let ?err = "\<lambda>i. Errorf ''incompatible types in assignment: %v = %v''
                          [A_str (Bind_Type (?binds ! i)), A_str (Out e i)]"
  have dispatch: "Stmt co s (ReturnStmt [x]) = outcome_of (returnMultiValues_state co ?binds ?upn [x] s)"
    if h: "chain s = front @ cf # behind" "\<forall>c \<in> set front. Func c = None" "Func cf = Some cinfo"
      "1 < length ?binds"
  proof -
    have "Return_loop (chain s) 0 = Some (cinfo, ?upn)"
      using Return_loop_passes[OF h(2,3), where behind = behind and upn = 0] by (simp add: h(1))
    then have "Return co [x] s = returnMultiValues co ?binds ?upn [x] s"
      using h(4) by (cases "Results cinfo") (simp_all add: Return_def Let_def)
    then show ?thesis by (simp add: Stmt_def returnMultiValues_outcome)
  qed
  have ok: "returnMultiValues_state co ?binds ?upn [x] s =
      (append_stmt (returnMultiValues_stmt (AsXV e)
          (map (\<lambda>b. Comp_varSetValue co (AsVar b ?upn) (chain s)) ?binds)) s, None)"
    if a: "Comp_ExprsMultipleValues co [x] (length ?binds) (chain s) = Inr (e # es)"
      and b: "\<forall>i < length ?binds. ?A i"
  proof -
    have "returnMultiValues_loop co (chain s) e ?binds ?upn [0..<length ?binds] =
           Inr (map (\<lambda>i. Comp_varSetValue co (AsVar (?binds ! i) ?upn) (chain s)) [0..<length ?binds])"
      by (rule returnMultiValues_loop_ok) (use b in simp)
    moreover have "map (\<lambda>i. Comp_varSetValue co (AsVar (?binds ! i) ?upn) (chain s)) [0..<length ?binds]
        = map (\<lambda>b. Comp_varSetValue co (AsVar b ?upn) (chain s)) ?binds"
      by (rule nth_equalityI) simp_all
    ultimately show ?thesis
      using a by (simp add: returnMultiValues_state_def Let_def)
  qed
  have bad: "\<exists>i < length ?binds. \<not> ?A i \<and> (\<forall>j < i. ?A j)
      \<and> returnMultiValues_state co ?binds ?upn [x] s = (s, Some (?err i))"
    if a: "Comp_ExprsMultipleValues co [x] (length ?binds) (chain s) = Inr (e # es)"
      and b: "\<exists>i < length ?binds. \<not> ?A i"
  proof -
    from first_mismatch[of "length ?binds" ?A, OF b]
    obtain i where i: "i < length ?binds" "\<not> ?A i" "\<forall>j < i. ?A j" by blast
    have u: "[0..<length ?binds] = [0..<i] @ i # [Suc i..<length ?binds]"
      using i(1) by (metis less_imp_le_nat upt_add_eq_append upt_conv_Cons zero_le le_add_diff_inverse)
    have "returnMultiValues_loop co (chain s) e ?binds ?upn ([0..<i] @ i # [Suc i..<length ?binds])
            = Inl (?err i)"
      by (rule returnMultiValues_loop_first) (use i in auto)
    then have "returnMultiValues_state co ?binds ?upn [x] s = (s, Some (?err i))"
      using a unfolding u[symmetric] by (simp add: returnMultiValues_state_def Let_def)
    then show ?thesis using i by blast
  qed
  have run_panic: "exec cs (returnMultiValues_stmt fn assigns) r = Panicked r"
    if "fn (vars r) = None"
    using that by simp
  have run_ok: "exec cs (returnMultiValues_stmt fn assigns) r =
          Interrupted (Interrupt (tg r))
            (r\<lparr>vars := fold (\<lambda>(assign, v) m. assign m v) (zip assigns vals) m1,
               tg := (tg r)\<lparr>Signal := SigReturn\<rparr>\<rparr>)"
    if "fn (vars r) = Some (vals, m1) \<and> length assigns \<le> length vals"
    using that by (simp add: assign_loop_all Let_def)
  show ?thesis
  proof (intro conjI impI)
    assume h: "chain s = front @ cf # behind \<and> (\<forall>c \<in> set front. Func c = None)
      \<and> Func cf = Some cinfo \<and> 1 < length ?binds"
    then show "Stmt co s (ReturnStmt [x]) = outcome_of (returnMultiValues_state co ?binds ?upn [x] s)"
      using dispatch by blast
  next
    assume h: "chain s = front @ cf # behind \<and> (\<forall>c \<in> set front. Func c = None)
      \<and> Func cf = Some cinfo \<and> 1 < length ?binds"
      and a: "Comp_ExprsMultipleValues co [x] (length ?binds) (chain s) = Inr (e # es)"
      and b: "\<forall>i < length ?binds. ?A i"
    have "Stmt co s (ReturnStmt [x]) = outcome_of (returnMultiValues_state co ?binds ?upn [x] s)"
      using dispatch h by blast
    then show "Stmt co s (ReturnStmt [x]) =
               Inr (append_stmt
                      (returnMultiValues_stmt (AsXV e)
                         (map (\<lambda>b. Comp_varSetValue co (AsVar b ?upn) (chain s)) ?binds)) s)"
      unfolding ok[OF a b] by (simp add: outcome_of_def)
  next
    assume h: "chain s = front @ cf # behind \<and> (\<forall>c \<in> set front. Func c = None)
      \<and> Func cf = Some cinfo \<and> 1 < length ?binds"
      and a: "Comp_ExprsMultipleValues co [x] (length ?binds) (chain s) = Inr (e # es)"
      and b: "\<exists>i < length ?binds. \<not> ?A i"
    have d: "Stmt co s (ReturnStmt [x]) = outcome_of (returnMultiValues_state co ?binds ?upn [x] s)"
      using dispatch h by blast
    from bad[OF a b] obtain i where i: "i < length ?binds" "\<not> ?A i" "\<forall>j < i. ?A j"
      "returnMultiValues_state co ?binds ?upn [x] s = (s, Some (?err i))" by blast
    have "Stmt co s (ReturnStmt [x]) = Inl (?err i)"
      unfolding d i(4) by (simp add: outcome_of_def)
    then show "\<exists>i < length ?binds. \<not> ?A i \<and> (\<forall>j < i. ?A j)
        \<and> Stmt co s (ReturnStmt [x]) = Inl (?err i)
        \<and> returnMultiValues_state co ?binds ?upn [x] s = (s, Some (?err i))"
      using i by blast
  next
    assume "fn (vars r) = None"
    then show "exec cs (returnMultiValues_stmt fn assigns) r = Panicked r" by (rule run_panic)
  next
    assume "fn (vars r) = Some (vals, m1) \<and> length assigns \<le> length vals"
    then show "exec cs (returnMultiValues_stmt fn assigns) r =
          Interrupted (Interrupt (tg r))
            (r\<lparr>vars := fold (\<lambda>(assign, v) m. assign m v) (zip assigns vals) m1,
               tg := (tg r)\<lparr>Signal := SigReturn\<rparr>\<rparr>)"
      by (rule run_ok)
  qed
qed

text \<open>
  The witness: \<^verbatim>\<open>return f(x, y)\<close> in a function with the results \<^verbatim>\<open>(a, bb int)\<close>, with
  \<^verbatim>\<open>x = 3\<close> and \<^verbatim>\<open>y = 4\<close>, compiled in the frame of a block of the function that has
  local bindings (\<open>in_block\<close>: the state in which \<^verbatim>\<open>List\<close> compiles the statements of such
  a block), so that one frame is passed; and the same statement with a call whose values
  have the type string (a call with an ellipsis, in the small collaborator) compiled in the
  root frame of the function.
\<close>

definition in_block :: cstate where
  "in_block = fst (pushEnvIfFlag 0 True (snd (alloc 2 (in_func two_ints False))))"

definition return_call :: "bool \<Rightarrow> ast_Expr" where
  "return_call ellipsis = CallExpr (Ident ''f'') [OtherExpr 5, OtherExpr 6] ellipsis"

definition set_results :: "(store \<Rightarrow> Value \<Rightarrow> store) list" where
  "set_results = map (\<lambda>b. Comp_varSetValue toy (AsVar b 1) (chain in_block)) two_ints"

definition xy :: store where
  "xy = (\<lambda>a. 0)(5 := 3, 6 := 4)"

theorem Return_call_checks_then_assigns_witness:
  "Stmt toy in_block (ReturnStmt [return_call False]) =
     Inr (append_stmt (returnMultiValues_stmt (AsXV (toy_Expr (return_call False))) set_results)
            in_block)
   \<and> map mnemonic (code (append_stmt
            (returnMultiValues_stmt (AsXV (toy_Expr (return_call False))) set_results) in_block))
       = [(''pushEnv'', [0]), (''return-call'', [])]
   \<and> Stmt toy (in_func two_ints False) (ReturnStmt [return_call True]) =
       Inl (Errorf ''incompatible types in assignment: %v = %v'' [A_str ''int'', A_str ''string''])
   \<and> returnMultiValues_state toy two_ints 0 [return_call True] (in_func two_ints False) =
       (in_func two_ints False,
        Some (Errorf ''incompatible types in assignment: %v = %v'' [A_str ''int'', A_str ''string'']))
   \<and> code (in_func two_ints False) = []
   \<and> AsXV (toy_Expr (return_call False)) xy = Some ([Settable 5, Settable 6], xy)
   \<and> exec [] (returnMultiValues_stmt (AsXV (toy_Expr (return_call False))) set_results) (thread0 xy) =
       Interrupted (Some stmtNop)
         ((thread0 xy)\<lparr>vars := fold (\<lambda>(assign, v) m. assign m v)
                                  (zip set_results [Settable 5, Settable 6]) xy,
                        tg := tg0\<lparr>Signal := SigReturn\<rparr>\<rparr>)
   \<and> fold (\<lambda>(assign, v) m. assign m v) (zip set_results [Settable 5, Settable 6]) xy 1 = 3
   \<and> fold (\<lambda>(assign, v) m. assign m v) (zip set_results [Settable 5, Settable 6]) xy 2 = 4"
proof -
  let ?root = "cur (append_stmt (pushEnv_stmt 0) (snd (alloc 2 (in_func two_ints False))))"
  let ?info = "\<lparr>Results = two_ints, NamedResults = False\<rparr>"
  have ch1: "chain in_block = [cur in_block] @ ?root # []"
    by (simp add: in_block_def pushEnvIfFlag_def chain_def Let_def append_stmt_def alloc_def
          in_func_def top_def)
  have fr1: "\<forall>c \<in> set [cur in_block]. Func c = None"
    by (simp add: in_block_def pushEnvIfFlag_def NewComp_def Let_def)
  have fn1: "Func ?root = Some ?info"
    by (simp add: in_func_def alloc_def append_stmt_def append_list_def root_Comp_def)
  have up1: "sum_list (map UpCost [cur in_block]) = 1"
    by (simp add: in_block_def pushEnvIfFlag_def NewComp_def Let_def)
  have ch0: "chain (in_func two_ints False) = [] @ cur (in_func two_ints False) # []"
    by (simp add: in_func_def chain_def top_def)
  have fn0: "Func (cur (in_func two_ints False)) = Some ?info"
    by (simp add: in_func_def root_Comp_def)
  have n: "1 < length (Results ?info)" by (simp add: two_ints_def)
  have m: "\<And>b s. Comp_ExprsMultipleValues toy [return_call b] (length (Results ?info)) (chain s)
              = Inr (toy_Expr (return_call b) # [])"
    by (simp add: toy_simps)
  have ok: "\<forall>i < length (Results ?info).
      Type_AssignableTo toy (Out (toy_Expr (return_call False)) i) (Bind_Type (Results ?info ! i))"
    by (simp add: toy_simps return_call_def two_ints_def nth_Cons split: nat.splits)
  have bad0: "\<not> Type_AssignableTo toy (Out (toy_Expr (return_call True)) 0)
                 (Bind_Type (Results ?info ! 0))"
    by (simp add: toy_simps return_call_def two_ints_def)
  have bad: "\<exists>i < length (Results ?info).
      \<not> Type_AssignableTo toy (Out (toy_Expr (return_call True)) i) (Bind_Type (Results ?info ! i))"
    using bad0 by (intro exI[of _ 0]) (simp add: two_ints_def)
  have v: "AsXV (toy_Expr (return_call False)) (vars (thread0 xy)) = Some ([Settable 5, Settable 6], xy)"
    by (simp add: return_call_def thread0_def)
  have l: "length set_results \<le> length [Settable 5, Settable 6]"
    by (simp add: set_results_def two_ints_def)
  note t1 = Return_call_checks_then_assigns[where co = toy and s = in_block
      and front = "[cur in_block]" and cf = ?root and behind = "[]" and cinfo = ?info
      and x = "return_call False" and e = "toy_Expr (return_call False)" and es = "[]"
      and fn = "AsXV (toy_Expr (return_call False))" and r = "thread0 xy"
      and vals = "[Settable 5, Settable 6]" and ?m1.0 = xy and assigns = set_results and cs = "[]"]
  note t2 = Return_call_checks_then_assigns[where co = toy and s = "in_func two_ints False"
      and front = "[]" and cf = "cur (in_func two_ints False)" and behind = "[]" and cinfo = ?info
      and x = "return_call True" and e = "toy_Expr (return_call True)" and es = "[]"]
  have 1: "Stmt toy in_block (ReturnStmt [return_call False]) =
     Inr (append_stmt (returnMultiValues_stmt (AsXV (toy_Expr (return_call False))) set_results)
            in_block)"
  proof -
    have "Stmt toy in_block (ReturnStmt [return_call False]) =
       Inr (append_stmt
              (returnMultiValues_stmt (AsXV (toy_Expr (return_call False)))
                 (map (\<lambda>b. Comp_varSetValue toy (AsVar b (sum_list (map UpCost [cur in_block])))
                            (chain in_block))
                    (Results ?info))) in_block)"
      by (rule t1[THEN conjunct1, THEN mp, OF conjI[OF ch1 conjI[OF fr1 conjI[OF fn1 n]]],
                  THEN conjunct2, THEN mp, OF m[of False in_block], THEN conjunct1, THEN mp, OF ok])
    then show ?thesis
      unfolding up1 set_results_def by simp
  qed
  have 5: "map mnemonic (code (append_stmt
            (returnMultiValues_stmt (AsXV (toy_Expr (return_call False))) set_results) in_block))
       = [(''pushEnv'', [0]), (''return-call'', [])]"
    by (simp add: in_block_def pushEnvIfFlag_def NewComp_def Let_def append_stmt_def
          append_list_def code_def in_func_def alloc_def top_def root_Comp_def)
  have fr0: "\<forall>c \<in> set []. Func c = None" by simp
  note t2' = t2[THEN conjunct1, THEN mp, OF conjI[OF ch0 conjI[OF fr0 conjI[OF fn0 n]]],
                THEN conjunct2, THEN mp, OF m[of True "in_func two_ints False"],
                THEN conjunct2, THEN mp, OF bad]
  from t2' obtain i where c: "i < length (Results ?info)
    \<and> \<not> Type_AssignableTo toy (Out (toy_Expr (return_call True)) i) (Bind_Type (Results ?info ! i))
    \<and> (\<forall>j < i. Type_AssignableTo toy (Out (toy_Expr (return_call True)) j)
                 (Bind_Type (Results ?info ! j)))
    \<and> Stmt toy (in_func two_ints False) (ReturnStmt [return_call True]) =
       Inl (Errorf ''incompatible types in assignment: %v = %v''
              [A_str (Bind_Type (Results ?info ! i)), A_str (Out (toy_Expr (return_call True)) i)])
    \<and> returnMultiValues_state toy (Results ?info) (sum_list (map UpCost ([]::Comp list))) [return_call True]
        (in_func two_ints False) =
       (in_func two_ints False,
        Some (Errorf ''incompatible types in assignment: %v = %v''
              [A_str (Bind_Type (Results ?info ! i)), A_str (Out (toy_Expr (return_call True)) i)]))"
    ..
  note i = c[THEN conjunct1] c[THEN conjunct2, THEN conjunct2, THEN conjunct1]
    c[THEN conjunct2, THEN conjunct2, THEN conjunct2, THEN conjunct1]
    c[THEN conjunct2, THEN conjunct2, THEN conjunct2, THEN conjunct2]
  have i0: "i = 0" using i(2) bad0 by (cases i) auto
  have 2: "Stmt toy (in_func two_ints False) (ReturnStmt [return_call True]) =
       Inl (Errorf ''incompatible types in assignment: %v = %v'' [A_str ''int'', A_str ''string''])"
    using i(3) unfolding i0 by (simp add: two_ints_def return_call_def)
  have 6: "returnMultiValues_state toy two_ints 0 [return_call True] (in_func two_ints False) =
       (in_func two_ints False,
        Some (Errorf ''incompatible types in assignment: %v = %v'' [A_str ''int'', A_str ''string'']))"
    using i(4) unfolding i0 by (simp add: two_ints_def return_call_def)
  have 7: "code (in_func two_ints False) = []"
    by (simp add: code_def in_func_def root_Comp_def)
  have 3: "exec [] (returnMultiValues_stmt (AsXV (toy_Expr (return_call False))) set_results) (thread0 xy) =
       Interrupted (Some stmtNop)
         ((thread0 xy)\<lparr>vars := fold (\<lambda>(assign, v) m. assign m v)
                                  (zip set_results [Settable 5, Settable 6]) xy,
                        tg := tg0\<lparr>Signal := SigReturn\<rparr>\<rparr>)"
    using t1[THEN conjunct2, THEN conjunct2, THEN mp, OF conjI[OF v l]]
    by (simp add: thread0_def tg0_def)
  have 4: "fold (\<lambda>(assign, v) m. assign m v) (zip set_results [Settable 5, Settable 6]) xy 1 = 3"
    "fold (\<lambda>(assign, v) m. assign m v) (zip set_results [Settable 5, Settable 6]) xy 2 = 4"
    by (simp_all add: set_results_def two_ints_def toy_simps AsVar_def xy_def)
  show ?thesis using 1 2 3 4 5 6 7 v by (simp add: thread0_def)
qed

section \<open>Defer\<close>

text \<open>
  \<open>eval_now argfuns m\<close> evaluates the argument expressions in order and reads the value of
  each as soon as it is evaluated: the values the arguments have when the defer statement
  executes.
\<close>

fun eval_now :: "Value closure list \<Rightarrow> store \<Rightarrow> (int list \<times> store) option" where
  "eval_now [] m = Some ([], m)"
| "eval_now (argfun # rest) m =
     (case argfun m of
        None \<Rightarrow> None
      | Some (v, m1) \<Rightarrow>
         (case eval_now rest m1 of
            None \<Rightarrow> None
          | Some (xs, m2) \<Rightarrow> Some (Interface m1 v # xs, m2)))"

lemma Convert_if: "(if CanSet v then Convert m v else v) = Plain (Interface m v)"
  by (cases v) (simp_all add: Convert_def)

lemma Defer_args_eval_now:
  "Defer_args argfuns m = map_option (\<lambda>(xs, m'). (map Plain xs, m')) (eval_now argfuns m)"
proof (induction argfuns arbitrary: m)
  case Nil
  then show ?case by simp
next
  case (Cons a argfuns)
  show ?case
    by (cases "a m") (auto simp: Cons.IH Convert_if split: option.splits)
qed

text \<open>
  C5. A defer statement whose call the collaborator prepares as \<open>c\<close> compiles to one
  instruction, made of the function expression, the argument expressions and the ellipsis
  flag of \<open>c\<close>, and marks the code as having defers. When the instruction executes and the
  function expression evaluates to \<open>f\<close> and the arguments to the values \<open>xs\<close> (read at once,
  \<open>eval_now\<close>), it installs in \<open>InstallDefer\<close> the closure that calls (with \<^verbatim>\<open>CallSlice\<close> when
  the call has an ellipsis, with \<^verbatim>\<open>Call\<close> otherwise) a copy of the function value on copies
  of these values: all are \<open>Plain\<close>, none aliases a variable, so no later assignment changes
  what the deferred call receives. It sets the signal to \<open>SigDefer\<close>, has incremented the
  instruction pointer, and transfers to the interrupt instruction of the thread.
\<close>

theorem Defer_evaluates_immediately:
  "(Comp_prepareCall co call (chain s) = Inr c \<longrightarrow>
      Defer co call s =
        Inr (s\<lparr>cur := (cur s)\<lparr>Code := \<lparr>Code_List = code s @
                       [Defer_stmt (AsX1 (Fun c)) (MakeArgfunsX1 c) (Ellipsis c)],
                     WithDefers = True\<rparr>\<rparr>\<rparr>))
   \<and> (fn (vars r) = Some (f, m1) \<and> eval_now argfuns m1 = Some (xs, m2) \<longrightarrow>
      exec cs (Defer_stmt fn argfuns ellipsis) r =
        Interrupted (Interrupt (tg r))
          (r\<lparr>env := (env r)\<lparr>IP := IP (env r) + 1\<rparr>,
             vars := m2,
             tg := (tg r)\<lparr>InstallDefer :=
                            Some (if ellipsis
                                  then Defer_CallSlice (Plain (Interface m1 f)) (map Plain xs)
                                  else Defer_Call (Plain (Interface m1 f)) (map Plain xs)),
                          Signal := SigDefer\<rparr>\<rparr>))"
  by (auto simp: Defer_def Let_def append_stmt_def append_list_def code_def
                 Defer_args_eval_now Convert_if jump_to_def)

text \<open>
  The witness: \<^verbatim>\<open>defer g(x)\<close> with \<^verbatim>\<open>x\<close> stored at 5 and equal to 7. The installed call
  holds 7, also when read in a store where \<^verbatim>\<open>x\<close> has become 8.
\<close>

definition defer_g :: ast_Stmt where
  "defer_g = DeferStmt (CallExpr (Ident ''g'') [OtherExpr 5] False)"

definition x_is :: "int \<Rightarrow> store" where
  "x_is v = (\<lambda>a. 0)(5 := v)"

theorem Defer_evaluates_immediately_witness:
  "Comp_prepareCall toy (CallExpr (Ident ''g'') [OtherExpr 5] False) (chain top)
     = Inr \<lparr>Fun = toy_Expr (Ident ''g''), MakeArgfunsX1 = [AsX1 (toy_Expr (OtherExpr 5))],
            Ellipsis = False\<rparr>
   \<and> Stmt toy top defer_g =
       Inr (top\<lparr>cur := (cur top)\<lparr>Code := \<lparr>Code_List =
              [Defer_stmt (AsX1 (toy_Expr (Ident ''g''))) [AsX1 (toy_Expr (OtherExpr 5))] False],
              WithDefers = True\<rparr>\<rparr>\<rparr>)
   \<and> AsX1 (toy_Expr (Ident ''g'')) (x_is 7) = Some (Plain 1, x_is 7)
   \<and> eval_now [AsX1 (toy_Expr (OtherExpr 5))] (x_is 7) = Some ([7], x_is 7)
   \<and> exec [] (Defer_stmt (AsX1 (toy_Expr (Ident ''g''))) [AsX1 (toy_Expr (OtherExpr 5))] False)
         (thread0 (x_is 7)) =
       Interrupted (Some stmtNop)
         ((thread0 (x_is 7))\<lparr>env := \<lparr>IP = 1, Binds = 0, IntBinds = 0\<rparr>,
            tg := tg0\<lparr>InstallDefer := Some (Defer_Call (Plain 1) [Plain 7]), Signal := SigDefer\<rparr>\<rparr>)
   \<and> map (Interface (x_is 8)) [Plain 7] = [7]"
proof -
  have a: "Comp_prepareCall toy (CallExpr (Ident ''g'') [OtherExpr 5] False) (chain top)
     = Inr \<lparr>Fun = toy_Expr (Ident ''g''), MakeArgfunsX1 = [AsX1 (toy_Expr (OtherExpr 5))],
            Ellipsis = False\<rparr>"
    by (simp add: toy_simps)
  have b: "AsX1 (toy_Expr (Ident ''g'')) (x_is 7) = Some (Plain 1, x_is 7)"
    by simp
  have c: "eval_now [AsX1 (toy_Expr (OtherExpr 5))] (x_is 7) = Some ([7], x_is 7)"
    by (simp add: var_Expr_def x_is_def)
  have d: "vars (thread0 (x_is 7)) = x_is 7" by (simp add: thread0_def)
  note t = Defer_evaluates_immediately[where co = toy and s = top
      and call = "CallExpr (Ident ''g'') [OtherExpr 5] False"
      and c = "\<lparr>Fun = toy_Expr (Ident ''g''), MakeArgfunsX1 = [AsX1 (toy_Expr (OtherExpr 5))],
                Ellipsis = False\<rparr>"
      and fn = "AsX1 (toy_Expr (Ident ''g''))" and r = "thread0 (x_is 7)" and f = "Plain 1"
      and ?m1.0 = "x_is 7" and argfuns = "[AsX1 (toy_Expr (OtherExpr 5))]" and xs = "[7]"
      and ?m2.0 = "x_is 7" and cs = "[]" and ellipsis = False]
  have e: "Stmt toy top defer_g =
       Inr (top\<lparr>cur := (cur top)\<lparr>Code := \<lparr>Code_List =
              [Defer_stmt (AsX1 (toy_Expr (Ident ''g''))) [AsX1 (toy_Expr (OtherExpr 5))] False],
              WithDefers = True\<rparr>\<rparr>\<rparr>)"
    using t a by (simp add: Stmt_def defer_g_def code_def top_def root_Comp_def)
  have f: "exec [] (Defer_stmt (AsX1 (toy_Expr (Ident ''g''))) [AsX1 (toy_Expr (OtherExpr 5))] False)
         (thread0 (x_is 7)) =
       Interrupted (Some stmtNop)
         ((thread0 (x_is 7))\<lparr>env := \<lparr>IP = 1, Binds = 0, IntBinds = 0\<rparr>,
            tg := tg0\<lparr>InstallDefer := Some (Defer_Call (Plain 1) [Plain 7]), Signal := SigDefer\<rparr>\<rparr>)"
    using t b c d by (simp add: thread0_def tg0_def)
  show ?thesis using a b c e f by simp
qed

section \<open>Blocks without local bindings\<close>

text \<open>
  C8. A block with no statement (and a nil block) compiles to nothing: the state is
  returned unchanged. A block whose statements \<open>list\<close> are not empty and of which none
  declares a name (\<open>node_binds\<close>: a definition \<^verbatim>\<open>:=\<close>, a local function with a name other
  than \<^verbatim>\<open>_\<close>, a \<^verbatim>\<open>var\<close> declaration with a name other than \<^verbatim>\<open>_\<close>; statements inside the
  statements are not looked at) gets no push-environment and no pop-environment
  instruction: when it compiles to \<open>s'\<close>, its statements were compiled, starting from the
  code of \<open>s\<close>, in a new frame \<^verbatim>\<open>NewComp\<close> with up-cost 0 whose outer frame is the frame of
  \<open>s\<close>; this frame declared no binding; and \<open>s'\<close> is \<open>s\<close> with exactly the code of that frame
  (and the two cells of \<^verbatim>\<open>nbinds\<close>): nothing else of the enclosing frame changed.
\<close>

theorem Block_without_local_binds:
  "Stmt co s (BlockStmt []) = Inr s \<and> Block co s (Some []) = Inr s \<and> Block co s None = Inr s
   \<and> (list \<noteq> [] \<and> \<not> list_ex node_binds list \<and> Block co s (Some list) = Inr s' \<longrightarrow>
        (\<exists>c3. Stmts_body (Stmt co)
                (s\<lparr>cur := (NewComp (cur s))\<lparr>UpCost := 0, Depth := Depth (NewComp (cur s)) - 1\<rparr>,
                   outer := cur s # outer s,
                   cells := cells s @ [0, 0]\<rparr>) list = Inr c3
              \<and> BindNum (cur c3) = 0 \<and> IntBindNum (cur c3) = 0
              \<and> s' = \<lparr>cur = (cur s)\<lparr>Code := Code (cur c3)\<rparr>, outer = outer s,
                       cells = (cells c3)[length (cells s) := 0, length (cells s) + 1 := 0]\<rparr>))"
proof (intro conjI impI)
  show "Stmt co s (BlockStmt []) = Inr s" by (simp add: Stmt_def Block_body_def)
  show "Block co s (Some []) = Inr s" by (simp add: Block_def Block_body_def)
  show "Block co s None = Inr s" by (simp add: Block_def Block_body_def)
next
  assume h: "list \<noteq> [] \<and> \<not> list_ex node_binds list \<and> Block co s (Some list) = Inr s'"
  then have ne: "list \<noteq> []" and nb: "\<not> containLocalBinds_loop list"
    and r: "List_body (Stmt co) s list = Inr s'"
    by (auto simp: containLocalBinds_loop_iff Block_def Block_body_def)
  from r obtain c2 locals c3 where
    a: "pushEnvIfLocalBinds (length (cells s)) list (snd (alloc 2 s)) = Inr (c2, locals)"
    and b: "Stmts_body (Stmt co) c2 list = Inr c3"
    and c: "popEnvIfLocalBinds locals (length (cells s)) list c3 = Inr s'"
    by (rule List_body_Inr)
  note p = pushEnvIfLocalBinds_Inr[OF a]
  have l: "locals = False" using p(2) nb by simp
  have c2: "c2 = s\<lparr>cur := (NewComp (cur s))\<lparr>UpCost := 0, Depth := Depth (NewComp (cur s)) - 1\<rparr>,
                   outer := cur s # outer s, cells := cells s @ [0, 0]\<rparr>"
    unfolding p(3) l by (simp add: pushEnvIfFlag_def alloc_def Let_def numeral_2_eq_2)
  have o: "outer c3 = cur s # outer s"
    using Stmts_body_Stmt_extends[OF b] by (simp add: extends_def grows_def c2)
  note q = popEnvIfLocalBinds_False[OF c[unfolded l] o]
  show "\<exists>c3. Stmts_body (Stmt co)
                (s\<lparr>cur := (NewComp (cur s))\<lparr>UpCost := 0, Depth := Depth (NewComp (cur s)) - 1\<rparr>,
                   outer := cur s # outer s,
                   cells := cells s @ [0, 0]\<rparr>) list = Inr c3
              \<and> BindNum (cur c3) = 0 \<and> IntBindNum (cur c3) = 0
              \<and> s' = \<lparr>cur = (cur s)\<lparr>Code := Code (cur c3)\<rparr>, outer = outer s,
                       cells = (cells c3)[length (cells s) := 0, length (cells s) + 1 := 0]\<rparr>"
    using b q unfolding c2 by blast
qed

definition one_stmt :: cstate where
  "one_stmt = \<lparr>cur = root_Comp\<lparr>Code := \<lparr>Code_List = [Collab_stmt (\<lambda>m. Some ((), m))],
                                            WithDefers = False\<rparr>\<rparr>,
                outer = [], cells = [0, 0]\<rparr>"

lemma Block_one_stmt: "Block toy top (Some [ExprStmt (OtherExpr 0)]) = Inr one_stmt"
  by (simp add: compile_defs one_stmt_def)

theorem Block_without_local_binds_witness:
  "[ExprStmt (OtherExpr 0)] \<noteq> [] \<and> \<not> list_ex node_binds [ExprStmt (OtherExpr 0)]
   \<and> Block toy top (Some [ExprStmt (OtherExpr 0)]) = Inr one_stmt
   \<and> (\<exists>c3. Stmts_body (Stmt toy)
                (top\<lparr>cur := (NewComp (cur top))\<lparr>UpCost := 0, Depth := Depth (NewComp (cur top)) - 1\<rparr>,
                   outer := cur top # outer top,
                   cells := cells top @ [0, 0]\<rparr>) [ExprStmt (OtherExpr 0)] = Inr c3
              \<and> BindNum (cur c3) = 0 \<and> IntBindNum (cur c3) = 0
              \<and> one_stmt = \<lparr>cur = (cur top)\<lparr>Code := Code (cur c3)\<rparr>, outer = outer top,
                       cells = (cells c3)[length (cells top) := 0, length (cells top) + 1 := 0]\<rparr>)"
proof -
  have h: "[ExprStmt (OtherExpr 0)] \<noteq> [] \<and> \<not> list_ex node_binds [ExprStmt (OtherExpr 0)]
     \<and> Block toy top (Some [ExprStmt (OtherExpr 0)]) = Inr one_stmt"
    by (simp add: Block_one_stmt)
  show ?thesis
    using h Block_without_local_binds[of toy top "[ExprStmt (OtherExpr 0)]" one_stmt] by blast
qed

section \<open>Go\<close>

text \<open>
  What evaluating the arguments of a call in the launching thread means, said without the
  loop of \<^verbatim>\<open>Go\<close>: \<open>store_after fs m\<close> is the store left by evaluating the expressions
  \<open>fs\<close> one after the other from the store \<open>m\<close> (\<open>None\<close> when one of them panics), and
  \<open>arg_value fs m i\<close> is the value of the \<open>i\<close>-th expression evaluated in the store that
  the expressions before it have left.
\<close>

definition store_after :: "Value closure list \<Rightarrow> store \<Rightarrow> store option" where
  "store_after fs m =
     fold (\<lambda>f mo. case mo of None \<Rightarrow> None | Some m' \<Rightarrow> map_option snd (f m')) fs (Some m)"

definition arg_value :: "Value closure list \<Rightarrow> store \<Rightarrow> nat \<Rightarrow> Value option" where
  "arg_value fs m i =
     (case store_after (take i fs) m of
        None \<Rightarrow> None
      | Some mi \<Rightarrow> map_option fst ((fs ! i) mi))"

lemma fold_store_None:
  "fold (\<lambda>f mo. case mo of None \<Rightarrow> None | Some m' \<Rightarrow> map_option snd (f m')) fs None = None"
  by (induction fs) simp_all

lemma store_after_Nil: "store_after [] m = Some m"
  by (simp add: store_after_def)

lemma store_after_Cons:
  "store_after (f # fs) m = (case f m of None \<Rightarrow> None | Some (v, m1) \<Rightarrow> store_after fs m1)"
  by (cases "f m") (auto simp: store_after_def fold_store_None)

lemma arg_value_0: "arg_value (f # fs) m 0 = map_option fst (f m)"
  by (simp add: arg_value_def store_after_Nil)

lemma arg_value_Suc:
  "f m = Some (v, m1) \<Longrightarrow> arg_value (f # fs) m (Suc i) = arg_value fs m1 i"
  by (simp add: arg_value_def store_after_Cons split: option.splits)

lemma Go_args_in_order:
  "Go_args fs m =
     (case store_after fs m of
        None \<Rightarrow> None
      | Some m2 \<Rightarrow> Some (map (\<lambda>i. the (arg_value fs m i)) [0..<length fs], m2))"
proof (induction fs arbitrary: m)
  case Nil
  then show ?case by (simp add: store_after_Nil)
next
  case (Cons f fs)
  show ?case
  proof (cases "f m")
    case None
    then show ?thesis by (simp add: store_after_Cons)
  next
    case (Some p)
    obtain v m1 where p: "p = (v, m1)" by (cases p)
    have fm: "f m = Some (v, m1)" using Some p by simp
    have u: "[0..<length (f # fs)] = 0 # map Suc [0..<length fs]"
      by (simp add: upt_conv_Cons map_Suc_upt del: upt_Suc)
    have s: "\<And>i. arg_value (f # fs) m (Suc i) = arg_value fs m1 i"
      using fm by (rule arg_value_Suc)
    show ?thesis
      unfolding u
      by (simp add: fm store_after_Cons Cons.IH arg_value_0 s comp_def split: option.splits)
  qed
qed

text \<open>
  C9. A go statement whose call the collaborator prepares as \<open>c\<close> (in the child frame
  \<^verbatim>\<open>NewComp\<close>) compiles to one instruction. When the instruction executes, the function
  expression is evaluated first, in the launching thread, and then the arguments in order,
  each in the store the evaluations before it have left. If all evaluate (the function
  to \<open>funv\<close>, leaving \<open>m1\<close>, and the arguments leaving \<open>m2\<close>), the variables of the thread
  become \<open>m2\<close> and the thread records one started call of \<open>funv\<close> on the values of the
  arguments, with a new \<open>ThreadGlobals\<close> that has the \<open>FileEnv\<close>, \<open>TopEnv\<close> and \<open>Globals\<close>
  of the launching thread and the zero value in every other field (no interrupt
  instruction, signal \<open>SigNone\<close>, an empty pool, no pending defer), and returns \<open>Next\<close> with
  its instruction pointer incremented: it goes on to its next instruction and does not
  run or await the call. If the function expression or an argument panics, the thread
  panics and no call was started. The call itself runs in its own goroutine; the model
  records that it was started and with what.
\<close>

theorem Go_starts_goroutine:
  "(Comp_prepareCall co call (NewComp (cur s) # chain s) = Inr c \<longrightarrow>
      Go co call s = Inr (append_stmt (Go_stmt (AsX1 (Fun c)) (MakeArgfunsX1 c)) s))
   \<and> (exprfun (vars r) = Some (funv, m1) \<and> store_after argfuns m1 = Some m2 \<longrightarrow>
      exec cs (Go_stmt exprfun argfuns) r =
        Next (r\<lparr>env := (env r)\<lparr>IP := IP (env r) + 1\<rparr>,
               vars := m2,
               tg := snd (NewEnv4Func 0 0 r),
               started := started r @
                 [\<lparr>go_Env = fst (NewEnv4Func 0 0 r),
                   go_ThreadGlobals =
                     \<lparr>FileEnv = FileEnv (tg r), TopEnv = TopEnv (tg r), Interrupt = None,
                      Signal = SigNone, PoolSize = 0, Pool = [], InstallDefer = None,
                      Globals = Globals (tg r)\<rparr>,
                   go_funv = funv,
                   go_argv = map (\<lambda>i. the (arg_value argfuns m1 i)) [0..<length argfuns]\<rparr>]\<rparr>))
   \<and> (exprfun (vars r) = None
        \<or> (exprfun (vars r) = Some (funv, m1) \<and> store_after argfuns m1 = None) \<longrightarrow>
      (\<exists>r'. exec cs (Go_stmt exprfun argfuns) r = Panicked r' \<and> started r' = started r))"
proof (intro conjI impI)
  assume "Comp_prepareCall co call (NewComp (cur s) # chain s) = Inr c"
  then show "Go co call s = Inr (append_stmt (Go_stmt (AsX1 (Fun c)) (MakeArgfunsX1 c)) s)"
    by (simp add: Go_def Let_def append_stmt_def append_list_def NewComp_def)
next
  assume h: "exprfun (vars r) = Some (funv, m1) \<and> store_after argfuns m1 = Some m2"
  have g: "FileEnv (take_from_pool (tg r)) = FileEnv (tg r)"
    "TopEnv (take_from_pool (tg r)) = TopEnv (tg r)"
    "Globals (take_from_pool (tg r)) = Globals (tg r)"
    by (simp_all add: take_from_pool_def)
  show "exec cs (Go_stmt exprfun argfuns) r =
        Next (r\<lparr>env := (env r)\<lparr>IP := IP (env r) + 1\<rparr>,
               vars := m2,
               tg := snd (NewEnv4Func 0 0 r),
               started := started r @
                 [\<lparr>go_Env = fst (NewEnv4Func 0 0 r),
                   go_ThreadGlobals =
                     \<lparr>FileEnv = FileEnv (tg r), TopEnv = TopEnv (tg r), Interrupt = None,
                      Signal = SigNone, PoolSize = 0, Pool = [], InstallDefer = None,
                      Globals = Globals (tg r)\<rparr>,
                   go_funv = funv,
                   go_argv = map (\<lambda>i. the (arg_value argfuns m1 i)) [0..<length argfuns]\<rparr>]\<rparr>)"
    using h by (simp add: NewEnv4Func_def Let_def jump_to_def g Go_args_in_order)
next
  assume "exprfun (vars r) = None
        \<or> (exprfun (vars r) = Some (funv, m1) \<and> store_after argfuns m1 = None)"
  then show "\<exists>r'. exec cs (Go_stmt exprfun argfuns) r = Panicked r' \<and> started r' = started r"
    by (auto simp: NewEnv4Func_def Let_def Go_args_in_order)
qed

text \<open>
  The witness: \<^verbatim>\<open>go f(next(), x, next())\<close> with a collaborator for which \<^verbatim>\<open>next()\<close>
  returns the counter stored at 9 and increments it, and \<^verbatim>\<open>x\<close> is the variable stored
  at 5. The two calls of \<^verbatim>\<open>next()\<close> give 0 and 1, and the counter is 2 in the launching
  thread when the instruction returns. With \<^verbatim>\<open>go f(next(), fail(), next())\<close>, where
  \<^verbatim>\<open>fail()\<close> panics, nothing is started.
\<close>

definition next_closure :: "Value closure" where
  "next_closure = (\<lambda>m. Some (Plain (m 9), m(9 := m 9 + 1)))"

definition counting_arg :: "ast_Expr \<Rightarrow> Value closure" where
  "counting_arg a =
     (case a of
        CallExpr (Ident name) args ellipsis \<Rightarrow>
          if name = ''next'' then next_closure else (\<lambda>m. None)
      | _ \<Rightarrow> AsX1 (toy_Expr a))"

definition counting :: collab where
  "counting =
     toy\<lparr>Comp_prepareCall := (\<lambda>node ch.
          case node of
            CallExpr f args ellipsis \<Rightarrow>
              Inr \<lparr>Fun = toy_Expr f, MakeArgfunsX1 = map counting_arg args, Ellipsis = ellipsis\<rparr>
          | _ \<Rightarrow> Inl (CollabError 2))\<rparr>"

definition go_f :: "string \<Rightarrow> ast_Expr" where
  "go_f name =
     CallExpr (Ident ''f'')
       [CallExpr (Ident ''next'') [] False, CallExpr (Ident name) [] False,
        CallExpr (Ident ''next'') [] False] False"

definition go_x :: ast_Expr where
  "go_x =
     CallExpr (Ident ''f'')
       [CallExpr (Ident ''next'') [] False, OtherExpr 5, CallExpr (Ident ''next'') [] False] False"

definition go_closures :: "Value closure list" where
  "go_closures = [next_closure, AsX1 (toy_Expr (OtherExpr 5)), next_closure]"

definition go_failing :: "Value closure list" where
  "go_failing = [next_closure, (\<lambda>m. None), next_closure]"

theorem Go_starts_goroutine_witness:
  "Stmt counting top (GoStmt go_x) =
       Inr (append_stmt (Go_stmt (AsX1 (toy_Expr (Ident ''f''))) go_closures) top)
   \<and> Stmt counting top (GoStmt (go_f ''fail'')) =
       Inr (append_stmt (Go_stmt (AsX1 (toy_Expr (Ident ''f''))) go_failing) top)
   \<and> exec [] (Go_stmt (AsX1 (toy_Expr (Ident ''f''))) go_closures) (thread0 (\<lambda>a. 0)) =
       Next ((thread0 (\<lambda>a. 0))
              \<lparr>env := \<lparr>IP = 1, Binds = 0, IntBinds = 0\<rparr>,
               vars := (\<lambda>a. 0)(9 := 2),
               started :=
                 [\<lparr>go_Env = \<lparr>IP = 0, Binds = 0, IntBinds = 0\<rparr>,
                   go_ThreadGlobals =
                     \<lparr>FileEnv = 1, TopEnv = 2, Interrupt = None, Signal = SigNone, PoolSize = 0,
                      Pool = [], InstallDefer = None, Globals = 3\<rparr>,
                   go_funv = Plain 1, go_argv = [Plain 0, Settable 5, Plain 1]\<rparr>]\<rparr>)
   \<and> (\<exists>r'. exec [] (Go_stmt (AsX1 (toy_Expr (Ident ''f''))) go_failing) (thread0 (\<lambda>a. 0))
             = Panicked r' \<and> started r' = [])"
proof -
  have a: "Comp_prepareCall counting go_x (NewComp (cur top) # chain top)
     = Inr \<lparr>Fun = toy_Expr (Ident ''f''), MakeArgfunsX1 = go_closures, Ellipsis = False\<rparr>"
    by (simp add: counting_def counting_arg_def go_x_def go_closures_def)
  have a': "Comp_prepareCall counting (go_f ''fail'') (NewComp (cur top) # chain top)
     = Inr \<lparr>Fun = toy_Expr (Ident ''f''), MakeArgfunsX1 = go_failing, Ellipsis = False\<rparr>"
    by (simp add: counting_def counting_arg_def go_f_def go_failing_def)
  have b: "AsX1 (toy_Expr (Ident ''f'')) (vars (thread0 (\<lambda>a. 0))) = Some (Plain 1, \<lambda>a. 0)"
    by (simp add: thread0_def)
  have c: "store_after go_closures (\<lambda>a. 0) = Some ((\<lambda>a. 0)(9 := 2))"
    by (simp add: store_after_def go_closures_def next_closure_def var_Expr_def)
  have c': "store_after go_failing (\<lambda>a. 0) = None"
    by (simp add: store_after_def go_failing_def next_closure_def)
  have d: "map (\<lambda>i. the (arg_value go_closures (\<lambda>a. 0) i)) [0..<length go_closures]
             = [Plain 0, Settable 5, Plain 1]"
    by (simp add: arg_value_def store_after_def go_closures_def next_closure_def var_Expr_def
                  upt_conv_Cons)
  note t = Go_starts_goroutine[where co = counting and s = top and call = go_x
      and c = "\<lparr>Fun = toy_Expr (Ident ''f''), MakeArgfunsX1 = go_closures, Ellipsis = False\<rparr>"
      and exprfun = "AsX1 (toy_Expr (Ident ''f''))" and r = "thread0 (\<lambda>a. 0)" and funv = "Plain 1"
      and ?m1.0 = "\<lambda>a. 0" and argfuns = go_closures and ?m2.0 = "(\<lambda>a. 0)(9 := 2)" and cs = "[]"]
  note t' = Go_starts_goroutine[where co = counting and s = top and call = "go_f ''fail''"
      and c = "\<lparr>Fun = toy_Expr (Ident ''f''), MakeArgfunsX1 = go_failing, Ellipsis = False\<rparr>"
      and exprfun = "AsX1 (toy_Expr (Ident ''f''))" and r = "thread0 (\<lambda>a. 0)" and funv = "Plain 1"
      and ?m1.0 = "\<lambda>a. 0" and argfuns = go_failing and cs = "[]"]
  have e: "Stmt counting top (GoStmt go_x) =
       Inr (append_stmt (Go_stmt (AsX1 (toy_Expr (Ident ''f''))) go_closures) top)"
    using t a by (simp add: Stmt_def)
  have e': "Stmt counting top (GoStmt (go_f ''fail'')) =
       Inr (append_stmt (Go_stmt (AsX1 (toy_Expr (Ident ''f''))) go_failing) top)"
    using t' a' by (simp add: Stmt_def)
  have f: "exec [] (Go_stmt (AsX1 (toy_Expr (Ident ''f''))) go_closures) (thread0 (\<lambda>a. 0)) =
       Next ((thread0 (\<lambda>a. 0))
              \<lparr>env := \<lparr>IP = 1, Binds = 0, IntBinds = 0\<rparr>,
               vars := (\<lambda>a. 0)(9 := 2),
               started :=
                 [\<lparr>go_Env = \<lparr>IP = 0, Binds = 0, IntBinds = 0\<rparr>,
                   go_ThreadGlobals =
                     \<lparr>FileEnv = 1, TopEnv = 2, Interrupt = None, Signal = SigNone, PoolSize = 0,
                      Pool = [], InstallDefer = None, Globals = 3\<rparr>,
                   go_funv = Plain 1, go_argv = [Plain 0, Settable 5, Plain 1]\<rparr>]\<rparr>)"
    using t b c unfolding d by (simp add: thread0_def tg0_def NewEnv4Func_def take_from_pool_def)
  have f': "\<exists>r'. exec [] (Go_stmt (AsX1 (toy_Expr (Ident ''f''))) go_failing) (thread0 (\<lambda>a. 0))
             = Panicked r' \<and> started r' = []"
    using t' b c' by (simp add: thread0_def)
  show ?thesis using e e' f f' by simp
qed

section \<open>The nil statement\<close>

text \<open>
  C10. The dispatcher accepts the nil statement: it returns the state unchanged (no
  instruction, no error), as it does for the empty statement, whereas a statement of a
  type it does not list is the error "unimplemented statement".
\<close>

theorem Stmt_nil:
  "Stmt co s NilStmt = Inr s
   \<and> Stmt co s EmptyStmt = Inr s
   \<and> Stmt co s BadStmt = Inl (Errorf ''unimplemented statement: %v <%v>'' [A_node, A_node])"
  by (simp add: Stmt_def)

theorem Stmt_nil_witness:
  "Stmt toy top NilStmt = Inr top
   \<and> Stmt toy top EmptyStmt = Inr top
   \<and> Stmt toy top BadStmt = Inl (Errorf ''unimplemented statement: %v <%v>'' [A_node, A_node])"
  by (rule Stmt_nil)

end
